theory Spec2Isabelle
  imports Complex_Main "HOL-Library.Sublist"
begin

section \<open>Detections\<close>

text \<open>
  A detection is the dictionary built in the detection loops of \<^verbatim>\<open>rfi_detector.py\<close>,
  with the keys \<^verbatim>\<open>timestamp\<close>, \<^verbatim>\<open>frequency\<close>, \<^verbatim>\<open>power_level\<close>, \<^verbatim>\<open>bandwidth\<close>,
  \<^verbatim>\<open>confidence\<close> and \<^verbatim>\<open>type\<close>. Python floats are read as real numbers.
\<close>

record detection =
  timestamp :: real
  frequency :: real
  power_level :: real
  bandwidth :: real
  confidence :: real
  kind :: string

section \<open>Deduplication: \<^verbatim>\<open>_filter_nearby_detections\<close>\<close>

text \<open>
  The body of the inner loop: \<^verbatim>\<open>time_diff < time_threshold and freq_diff < freq_threshold\<close>
  for the detection \<open>d\<close> under test and an already accepted detection \<open>e\<close>.
\<close>

definition too_close :: "real \<Rightarrow> real \<Rightarrow> detection \<Rightarrow> detection \<Rightarrow> bool" where
  "too_close time_threshold freq_threshold d e \<longleftrightarrow>
     \<bar>timestamp d - timestamp e\<bar> < time_threshold \<and>
     \<bar>frequency d - frequency e\<bar> < freq_threshold"

text \<open>
  \<^verbatim>\<open>detections.sort(key=lambda x: x['power_level'], reverse=True)\<close>. Python's sort is
  stable, and with \<^verbatim>\<open>reverse=True\<close> it sorts as if each comparison were reversed while
  keeping equal keys in their original order: a stable ascending sort on the negated key.
\<close>

definition sort_by_power :: "detection list \<Rightarrow> detection list" where
  "sort_by_power ds = sort_key (\<lambda>d. - power_level d) ds"

text \<open>
  The acceptance loop \<^verbatim>\<open>for detection in detections\<close>, with the list \<^verbatim>\<open>filtered\<close> as
  accumulator. \<open>cap = Some c\<close> is the variant that leaves the loop as soon as
  \<^verbatim>\<open>len(filtered) >= c\<close> after an append; \<open>cap = None\<close> is the variant without that test.
\<close>

fun accept_loop ::
  "real \<Rightarrow> real \<Rightarrow> nat option \<Rightarrow> detection list \<Rightarrow> detection list \<Rightarrow> detection list" where
  "accept_loop tt ft cap filtered [] = filtered"
| "accept_loop tt ft cap filtered (d # ds) =
     (if list_ex (too_close tt ft d) filtered then accept_loop tt ft cap filtered ds
      else if (case cap of None \<Rightarrow> False | Some c \<Rightarrow> c \<le> length (filtered @ [d]))
        then filtered @ [d]
      else accept_loop tt ft cap (filtered @ [d]) ds)"

text \<open>
  \<^verbatim>\<open>src/rfi_detector.py\<close>: \<^verbatim>\<open>_filter_nearby_detections(self, detections,
  time_threshold=0.1, freq_threshold=10000)\<close>, no cap. Both detection paths of that file
  call it with the defaults.
\<close>

definition filter_nearby_detections ::
  "real \<Rightarrow> real \<Rightarrow> detection list \<Rightarrow> detection list" where
  "filter_nearby_detections time_threshold freq_threshold detections =
     (if detections = [] then detections
      else accept_loop time_threshold freq_threshold None [] (sort_by_power detections))"

definition filter_nearby_detections_default :: "detection list \<Rightarrow> detection list" where
  "filter_nearby_detections_default detections =
     filter_nearby_detections (1 / 10) 10000 detections"

text \<open>
  \<^verbatim>\<open>src/SDRSCI/services/rfi_detector.py\<close>: \<^verbatim>\<open>_filter_nearby_detections(self, detections)\<close>
  with the constants \<^verbatim>\<open>0.1\<close> and \<^verbatim>\<open>1000\<close> written in the test and the loop left at
  \<^verbatim>\<open>len(filtered) >= 50\<close>. Both detection paths of that file call it.
\<close>

definition services_filter_nearby_detections :: "detection list \<Rightarrow> detection list" where
  "services_filter_nearby_detections detections =
     (if detections = [] then detections
      else accept_loop (1 / 10) 1000 (Some 50) [] (sort_by_power detections))"

section \<open>Array statistics\<close>

text \<open>
  \<^verbatim>\<open>np.mean\<close>, \<^verbatim>\<open>np.std\<close> (population standard deviation), \<^verbatim>\<open>np.median\<close> and
  \<^verbatim>\<open>np.max\<close> over all cells of an array, given as the list of its cells. On an empty
  array numpy returns NaN for the first three (so that no comparison with the threshold
  succeeds) and raises for the last; the detection loops below never run on an empty
  spectrogram, so the value these definitions take on the empty list is never used.
\<close>

definition np_mean :: "real list \<Rightarrow> real" where
  "np_mean xs = sum_list xs / real (length xs)"

definition np_std :: "real list \<Rightarrow> real" where
  "np_std xs = sqrt (np_mean (map (\<lambda>x. (x - np_mean xs)\<^sup>2) xs))"

definition np_median :: "real list \<Rightarrow> real" where
  "np_median xs =
     (let s = sort xs; n = length xs
      in if even n then (s ! (n div 2 - 1) + s ! (n div 2)) / 2 else s ! (n div 2))"

definition np_max :: "real list \<Rightarrow> real" where
  "np_max xs = Max (set xs)"

text \<open>\<^verbatim>\<open>10 * np.log10(spectrogram + 1e-10)\<close> and \<^verbatim>\<open>np.clip(a, lo, hi)\<close>, cell by cell.\<close>

definition to_db :: "real \<Rightarrow> real" where
  "to_db p = 10 * log 10 (p + 1 / 10 ^ 10)"

definition clip :: "real \<Rightarrow> real \<Rightarrow> real \<Rightarrow> real" where
  "clip x lo hi = min (max x lo) hi"

section \<open>Fourier transform and windows\<close>

text \<open>
  \<^verbatim>\<open>np.fft.fft\<close> computes the discrete Fourier transform
  \<open>A\<^sub>k = \<Sum>\<^sub>m a\<^sub>m exp(-2\<pi>i\<cdot>mk/n)\<close>; \<^verbatim>\<open>np.fft.fftshift\<close> rotates a vector by \<open>n div 2\<close> places;
  \<^verbatim>\<open>np.fft.fftfreq(n, d)\<close> lists the bin frequencies \<open>0, 1, \<dots>, -2, -1\<close> over \<open>n\<cdot>d\<close>;
  \<^verbatim>\<open>np.hanning(M)\<close> is the symmetric Hann window and scipy's \<^verbatim>\<open>'hann'\<close> the periodic one.
\<close>

definition dft :: "complex list \<Rightarrow> complex list" where
  "dft xs = map (\<lambda>k. \<Sum>m<length xs. xs ! m * cis (- 2 * pi * real k * real m / real (length xs)))
     [0..<length xs]"

definition fftshift :: "'a list \<Rightarrow> 'a list" where
  "fftshift xs = (let k = length xs - length xs div 2 in drop k xs @ take k xs)"

definition fftfreq :: "nat \<Rightarrow> real \<Rightarrow> real list" where
  "fftfreq n d =
     map (\<lambda>i. (if i < (n - 1) div 2 + 1 then real i else real i - real n) / (real n * d)) [0..<n]"

definition hanning :: "nat \<Rightarrow> real list" where
  "hanning M =
     (if M \<le> 1 then replicate M 1
      else map (\<lambda>n. 1 / 2 - 1 / 2 * cos (2 * pi * real n / real (M - 1))) [0..<M])"

definition hann_periodic :: "nat \<Rightarrow> real list" where
  "hann_periodic N =
     (if N \<le> 1 then replicate N 1
      else map (\<lambda>n. 1 / 2 - 1 / 2 * cos (2 * pi * real n / real N)) [0..<N])"

section \<open>The library spectrogram of the real-valued path\<close>

datatype error = RecordingNotFound nat | Unreadable | BadArguments

text \<open>
  \<^verbatim>\<open>scipy.signal.spectrogram(x, fs, window='hann', nperseg, noverlap)\<close> with its other
  arguments at their defaults (constant detrending, one-sided density scaling, mode
  \<^verbatim>\<open>psd\<close>, no padding). The library cuts \<open>x\<close> into segments of \<open>nperseg\<close> samples whose
  starts are \<open>nperseg - noverlap\<close> samples apart, returns the bin frequencies
  \<^verbatim>\<open>rfftfreq(nperseg, 1/fs)\<close>, the segment centres as time axis and one power spectral
  density per segment; the array has one row per frequency bin and one column per segment.
  It raises for \<open>nperseg = 0\<close> and for \<open>noverlap \<ge> nperseg\<close>; a zero sampling rate fails
  in \<^verbatim>\<open>1/fs\<close>. A window longer than the input, which the library would shorten, cannot
  come from the call below (the window is at most a quarter of the input) and is put
  with the errors.
\<close>

definition segment_psd :: "nat \<Rightarrow> real list \<Rightarrow> real list" where
  "segment_psd fs seg =
     (let n = length seg;
          m = sum_list seg / real n;
          win = hann_periodic n;
          y = map2 (\<lambda>x w. (x - m) * w) seg win;
          F = take (n div 2 + 1) (dft (map complex_of_real y));
          scale = 1 / (real fs * sum_list (map (\<lambda>w. w\<^sup>2) win));
          S = map (\<lambda>z. (cmod z)\<^sup>2 * scale) F
      in map (\<lambda>k. if 0 < k \<and> (odd n \<or> k < n div 2) then 2 * (S ! k) else S ! k) [0..<length S])"

definition n_segments :: "nat \<Rightarrow> nat \<Rightarrow> nat \<Rightarrow> nat" where
  "n_segments n nperseg noverlap = (n - noverlap) div (nperseg - noverlap)"

definition segment_times :: "nat \<Rightarrow> nat \<Rightarrow> nat \<Rightarrow> nat \<Rightarrow> real list" where
  "segment_times n fs nperseg noverlap =
     map (\<lambda>i. (real nperseg / 2 + real i * real (nperseg - noverlap)) / real fs)
       [0..<n_segments n nperseg noverlap]"

definition scipy_spectrogram ::
  "real list \<Rightarrow> nat \<Rightarrow> nat \<Rightarrow> nat \<Rightarrow> error + (real list \<times> real list \<times> real list list)" where
  "scipy_spectrogram x fs nperseg noverlap =
     (if nperseg = 0 \<or> nperseg \<le> noverlap \<or> length x < nperseg \<or> fs = 0 then Inl BadArguments
      else
        let step = nperseg - noverlap;
            frequencies = map (\<lambda>k. real k * real fs / real nperseg) [0..<nperseg div 2 + 1];
            time_axis = segment_times (length x) fs nperseg noverlap;
            segment = (\<lambda>i. take nperseg (drop (i * step) x));
            Sxx = map (\<lambda>f. map (\<lambda>i. segment_psd fs (segment i) ! f)
                    [0..<n_segments (length x) nperseg noverlap]) [0..<nperseg div 2 + 1]
        in Inr (frequencies, time_axis, Sxx))"

section \<open>The real-valued path: \<^verbatim>\<open>_detect_rfi_patterns_fast\<close>\<close>

text \<open>\<^verbatim>\<open>_classify_interference_fast(frequency, power_level)\<close>, the same in both files.\<close>

definition classify_interference_fast :: "real \<Rightarrow> real \<Rightarrow> string" where
  "classify_interference_fast freq pwr =
     (let freq_mhz = freq / 1000000 in
      if 88 \<le> freq_mhz \<and> freq_mhz \<le> 108 then ''FM_broadcast''
      else if 174 \<le> freq_mhz \<and> freq_mhz \<le> 216 then ''TV_broadcast''
      else if 470 \<le> freq_mhz \<and> freq_mhz \<le> 790 then ''UHF_TV''
      else if 2400 \<le> freq_mhz \<and> freq_mhz \<le> 2500 then ''WiFi_ISM''
      else if pwr > - 20 then ''strong_local''
      else if pwr > - 40 then ''moderate''
      else ''weak_signal'')"

text \<open>
  \<^verbatim>\<open>np.where(spectrogram_db > threshold)\<close>: the index pairs \<open>(f_idx, t_idx)\<close> of the cells
  above the threshold, in the row-major order of the array (frequency bin by frequency
  bin). The array is held as the list of its rows: \<open>sg ! f ! t\<close> is \<^verbatim>\<open>sg[f, t]\<close>.
\<close>

definition peak_indices :: "real list list \<Rightarrow> real \<Rightarrow> (nat \<times> nat) list" where
  "peak_indices sg threshold =
     concat (map (\<lambda>f. map (\<lambda>t. (f, t)) (filter (\<lambda>t. sg ! f ! t > threshold) [0..<length (sg ! f)]))
       [0..<length sg])"

text \<open>\<^verbatim>\<open>for i in range(0, len(peak_indices[0]), 5)\<close>: the entries 0, 5, 10, \<dots>\<close>

fun every_fifth :: "'a list \<Rightarrow> 'a list" where
  "every_fifth [] = []"
| "every_fifth (x # xs) = x # every_fifth (drop 4 xs)"

text \<open>The body of that loop: the detection built for one sampled cell.\<close>

definition fast_detection ::
  "real list \<Rightarrow> real list \<Rightarrow> real list list \<Rightarrow> real \<Rightarrow> real \<Rightarrow> nat \<Rightarrow> nat \<Rightarrow> nat \<times> nat \<Rightarrow> detection" where
  "fast_detection frequencies time_axis spectrogram_db threshold std_power sample_rate window_size idx =
     (let f_idx = fst idx; t_idx = snd idx;
          pwr = spectrogram_db ! f_idx ! t_idx;
          freq = frequencies ! f_idx;
          time = time_axis ! t_idx
      in \<lparr>timestamp = time, frequency = freq, power_level = pwr,
          bandwidth = real sample_rate / real window_size,
          confidence = min ((pwr - threshold) / std_power) 1,
          kind = classify_interference_fast freq pwr\<rparr>)"

definition fast_candidates ::
  "real list \<Rightarrow> real list \<Rightarrow> real list list \<Rightarrow> nat \<Rightarrow> nat \<Rightarrow> detection list" where
  "fast_candidates frequencies time_axis spectrogram_db sample_rate window_size =
     (let cells = concat spectrogram_db;
          median_power = np_median cells;
          std_power = np_std cells;
          threshold = median_power + 2 * std_power
      in map (fast_detection frequencies time_axis spectrogram_db threshold std_power sample_rate
                window_size)
           (every_fifth (peak_indices spectrogram_db threshold)))"

text \<open>
  \<^verbatim>\<open>if len(detections) > 100: detections.sort(key=..., reverse=True);
  detections = detections[:100]\<close>
\<close>

definition limit_detections :: "detection list \<Rightarrow> detection list" where
  "limit_detections detections =
     (if length detections > 100 then take 100 (sort_by_power detections) else detections)"

text \<open>
  The whole function. Its text is the same in both files; the files differ in the
  \<^verbatim>\<open>_filter_nearby_detections\<close> it calls, which is the argument \<open>filt\<close>. An exception of
  the library call is caught and leaves the empty list.
\<close>

definition detect_rfi_patterns_fast_with ::
  "(detection list \<Rightarrow> detection list) \<Rightarrow> real list \<Rightarrow> nat \<Rightarrow> detection list" where
  "detect_rfi_patterns_fast_with filt audio_data sample_rate =
     (let window_size = min 2048 (length audio_data div 4);
          hop_length = window_size div 4
      in case scipy_spectrogram audio_data sample_rate window_size hop_length of
           Inl e \<Rightarrow> []
         | Inr (frequencies, time_axis, spectrogram) \<Rightarrow>
             let spectrogram_db = map (map (\<lambda>p. clip (to_db p) (- 100) 50)) spectrogram
             in filt (limit_detections
                  (fast_candidates frequencies time_axis spectrogram_db sample_rate window_size)))"

definition services_detect_rfi_patterns_fast :: "real list \<Rightarrow> nat \<Rightarrow> detection list" where
  "services_detect_rfi_patterns_fast =
     detect_rfi_patterns_fast_with services_filter_nearby_detections"

definition detect_rfi_patterns_fast :: "real list \<Rightarrow> nat \<Rightarrow> detection list" where
  "detect_rfi_patterns_fast = detect_rfi_patterns_fast_with filter_nearby_detections_default"

section \<open>The complex-valued path: \<^verbatim>\<open>_detect_rfi_patterns_complex\<close>\<close>

text \<open>
  The two \<^verbatim>\<open>while\<close> loops of \<^verbatim>\<open>_estimate_bandwidth\<close>:
  \<^verbatim>\<open>while left_idx > 0 and power_spectrum[left_idx] > threshold: left_idx -= 1\<close> and
  \<^verbatim>\<open>while right_idx < len(power_spectrum) - 1 and power_spectrum[right_idx] > threshold:
  right_idx += 1\<close>.
\<close>

fun walk_left :: "real list \<Rightarrow> real \<Rightarrow> nat \<Rightarrow> nat" where
  "walk_left ps thr 0 = 0"
| "walk_left ps thr (Suc i) = (if ps ! Suc i > thr then walk_left ps thr i else Suc i)"

function walk_right :: "real list \<Rightarrow> real \<Rightarrow> nat \<Rightarrow> nat" where
  "walk_right ps thr i =
     (if i < length ps - 1 \<and> ps ! i > thr then walk_right ps thr (Suc i) else i)"
  by pat_completeness auto
termination
  by (relation "measure (\<lambda>(ps, thr, i). length ps - i)") auto

declare walk_right.simps [simp del]

text \<open>
  \<^verbatim>\<open>src/SDRSCI/services/rfi_detector.py\<close>: the points 3 dB below the peak; an index error
  is caught and gives the width of one bin, or 1000 when there are fewer than two bins.
\<close>

definition services_estimate_bandwidth :: "real list \<Rightarrow> nat \<Rightarrow> real list \<Rightarrow> real" where
  "services_estimate_bandwidth power_spectrum peak_idx frequencies =
     (let fallback = (if length frequencies > 1 then \<bar>frequencies ! 1 - frequencies ! 0\<bar> else 1000)
      in if length power_spectrum \<le> peak_idx then fallback
         else
           let peak_power = power_spectrum ! peak_idx;
               threshold = peak_power - 3;
               left_idx = walk_left power_spectrum threshold peak_idx;
               right_idx = walk_right power_spectrum threshold peak_idx
           in if right_idx > left_idx \<and> right_idx < length frequencies
                then \<bar>frequencies ! right_idx - frequencies ! left_idx\<bar>
              else fallback)"

text \<open>\<^verbatim>\<open>src/rfi_detector.py\<close>: the points 6 dB below the peak, counted in bins.\<close>

definition estimate_bandwidth :: "real list \<Rightarrow> nat \<Rightarrow> real list \<Rightarrow> real" where
  "estimate_bandwidth power_spectrum peak_idx frequencies =
     (if length power_spectrum \<le> peak_idx then 1000
      else
        let peak_power = power_spectrum ! peak_idx;
            threshold = peak_power - 6;
            left_idx = walk_left power_spectrum threshold peak_idx;
            right_idx = walk_right power_spectrum threshold peak_idx
        in if right_idx > left_idx then
             let freq_resolution =
                   (if length frequencies > 1 then frequencies ! 1 - frequencies ! 0 else 1);
                 bw = real (right_idx - left_idx) * \<bar>freq_resolution\<bar>
             in max bw \<bar>freq_resolution\<bar>
           else if length frequencies > 1 then \<bar>frequencies ! 1 - frequencies ! 0\<bar>
           else 1000)"

text \<open>\<^verbatim>\<open>_classify_interference\<close> of \<^verbatim>\<open>src/SDRSCI/services/rfi_detector.py\<close>.\<close>

definition services_classify_interference :: "real \<Rightarrow> real \<Rightarrow> real \<Rightarrow> string" where
  "services_classify_interference pwr bw freq =
     (let freq_mhz = freq / 1000000; bw_khz = bw / 1000 in
      if 88 \<le> freq_mhz \<and> freq_mhz \<le> 108 \<and> bw_khz > 150 then ''FM_broadcast''
      else if 174 \<le> freq_mhz \<and> freq_mhz \<le> 216 then ''TV_broadcast''
      else if 2400 \<le> freq_mhz \<and> freq_mhz \<le> 2500 then ''WiFi_ISM''
      else if freq_mhz \<in> set [144, 432, 1296] then ''amateur_radio''
      else if (800 \<le> freq_mhz \<and> freq_mhz \<le> 900) \<or> (1800 \<le> freq_mhz \<and> freq_mhz \<le> 1900)
        then ''cellular''
      else if bw_khz < 25 then ''narrowband''
      else if bw_khz > 100 then ''wideband''
      else ''unknown'')"

text \<open>\<^verbatim>\<open>_classify_interference\<close> of \<^verbatim>\<open>src/rfi_detector.py\<close>.\<close>

definition classify_interference :: "real \<Rightarrow> real \<Rightarrow> real \<Rightarrow> string" where
  "classify_interference pwr bw freq =
     (if bw > 100000 then ''broadband''
      else if bw < 1000 then ''narrowband''
      else if pwr > - 40 then ''strong_interference''
      else if 88000000 \<le> freq \<and> freq \<le> 108000000 then ''fm_broadcast''
      else if 535000 \<le> freq \<and> freq \<le> 1705000 then ''am_broadcast''
      else if freq > 2400000000 \<and> freq < 2500000000 then ''wifi''
      else ''unknown'')"

text \<open>
  The spectrogram loop: frame \<open>i\<close> is \<^verbatim>\<open>complex_data[i * 1024 : i * 1024 + 4096]\<close>, multiplied
  by the Hann window, transformed, shifted, and its squared magnitudes stored as column
  \<open>i\<close> of an array with 4096 rows.
\<close>

definition frame_power :: "complex list \<Rightarrow> nat \<Rightarrow> real list" where
  "frame_power complex_data i =
     (let start_idx = i * 1024;
          window_data = take 4096 (drop start_idx complex_data);
          windowed_data = map2 (\<lambda>z w. z * complex_of_real w) window_data (hanning 4096);
          fft_data = fftshift (dft windowed_data)
      in map (\<lambda>z. (cmod z)\<^sup>2) fft_data)"

definition complex_spectrogram :: "complex list \<Rightarrow> nat \<Rightarrow> real list list" where
  "complex_spectrogram complex_data num_windows =
     map (\<lambda>f. map (\<lambda>i. frame_power complex_data i ! f) [0..<num_windows]) [0..<4096]"

text \<open>
  \<^verbatim>\<open>num_windows = (len(complex_data) - window_size) // hop_length + 1\<close>, an integer that is
  negative for short buffers, and \<^verbatim>\<open>times = np.arange(num_windows) * hop_length /
  sample_rate\<close>.
\<close>

definition num_windows :: "nat \<Rightarrow> int" where
  "num_windows n = (int n - 4096) div 1024 + 1"

definition complex_times :: "nat \<Rightarrow> nat \<Rightarrow> real list" where
  "complex_times nw sample_rate = map (\<lambda>i. real i * 1024 / real sample_rate) [0..<nw]"

text \<open>The detection built for the cell \<open>(t_idx, f_idx)\<close> in the body of the scan.\<close>

definition complex_detection ::
  "(real list \<Rightarrow> nat \<Rightarrow> real list \<Rightarrow> real) \<Rightarrow> (real \<Rightarrow> real \<Rightarrow> real \<Rightarrow> string) \<Rightarrow>
   real list \<Rightarrow> real list \<Rightarrow> real list list \<Rightarrow> real \<Rightarrow> nat \<Rightarrow> nat \<Rightarrow> detection" where
  "complex_detection est cls frequencies time_axis spectrogram_db threshold t_idx f_idx =
     (let time = time_axis ! t_idx;
          freq = frequencies ! f_idx;
          pwr = spectrogram_db ! f_idx ! t_idx;
          bw = est (map (\<lambda>row. row ! t_idx) spectrogram_db) f_idx frequencies;
          interference_type = cls pwr bw freq
      in \<lparr>timestamp = time, frequency = freq, power_level = pwr, bandwidth = bw,
          confidence = min 1 ((pwr - threshold) / (np_max (concat spectrogram_db) - threshold)),
          kind = interference_type\<rparr>)"

text \<open>
  The nested scan \<^verbatim>\<open>for t_idx, time in enumerate(times): for f_idx, freq in
  enumerate(frequencies)\<close> with the list \<^verbatim>\<open>detections\<close> and the counter
  \<^verbatim>\<open>detection_count\<close> as state. \<open>cap = Some 200\<close> is the variant of
  \<^verbatim>\<open>src/SDRSCI/services/rfi_detector.py\<close>, which leaves both loops once
  \<^verbatim>\<open>detection_count > 200\<close>, tested after the increment and again after the inner loop;
  \<open>cap = None\<close> is the variant of \<^verbatim>\<open>src/rfi_detector.py\<close>, which has no counter.
\<close>

definition over :: "nat option \<Rightarrow> nat \<Rightarrow> bool" where
  "over cap detection_count = (case cap of None \<Rightarrow> False | Some c \<Rightarrow> detection_count > c)"

fun scan_frequencies ::
  "(nat \<Rightarrow> bool) \<Rightarrow> (nat \<Rightarrow> detection) \<Rightarrow> nat option \<Rightarrow> nat list \<Rightarrow>
   detection list \<times> nat \<Rightarrow> detection list \<times> nat" where
  "scan_frequencies is_above mk cap [] st = st"
| "scan_frequencies is_above mk cap (f_idx # rest) st =
     (if is_above f_idx then
        (let st' = (fst st @ [mk f_idx], snd st + 1)
         in if over cap (snd st') then st' else scan_frequencies is_above mk cap rest st')
      else scan_frequencies is_above mk cap rest st)"

fun scan_times ::
  "(nat \<Rightarrow> detection list \<times> nat \<Rightarrow> detection list \<times> nat) \<Rightarrow> nat option \<Rightarrow> nat list \<Rightarrow>
   detection list \<times> nat \<Rightarrow> detection list \<times> nat" where
  "scan_times inner cap [] st = st"
| "scan_times inner cap (t_idx # rest) st =
     (let st' = inner t_idx st
      in if over cap (snd st') then st' else scan_times inner cap rest st')"

definition complex_scan ::
  "(nat \<Rightarrow> nat \<Rightarrow> bool) \<Rightarrow> (nat \<Rightarrow> nat \<Rightarrow> detection) \<Rightarrow> nat option \<Rightarrow> nat \<Rightarrow> nat \<Rightarrow>
   detection list" where
  "complex_scan is_above mk cap n_times n_freqs =
     fst (scan_times (\<lambda>t_idx. scan_frequencies (is_above t_idx) (mk t_idx) cap [0..<n_freqs])
            cap [0..<n_times] ([], 0))"

definition complex_candidates ::
  "(real list \<Rightarrow> nat \<Rightarrow> real list \<Rightarrow> real) \<Rightarrow> (real \<Rightarrow> real \<Rightarrow> real \<Rightarrow> string) \<Rightarrow> nat option \<Rightarrow>
   real list \<Rightarrow> real list \<Rightarrow> real list list \<Rightarrow> detection list" where
  "complex_candidates est cls cap frequencies time_axis spectrogram_db =
     (let cells = concat spectrogram_db;
          threshold = np_mean cells + 3 * np_std cells
      in complex_scan (\<lambda>t_idx f_idx. spectrogram_db ! f_idx ! t_idx > threshold)
           (complex_detection est cls frequencies time_axis spectrogram_db threshold)
           cap (length time_axis) (length frequencies))"

text \<open>
  The whole function, with the bandwidth estimate, the classifier, the cap and the
  deduplication of the file as arguments. \<^verbatim>\<open>1/sample_rate\<close> raises for a zero sampling
  rate and \<^verbatim>\<open>np.zeros\<close> for a negative number of windows; both exceptions are caught
  and leave the empty list.
\<close>

definition detect_rfi_patterns_complex_with ::
  "(real list \<Rightarrow> nat \<Rightarrow> real list \<Rightarrow> real) \<Rightarrow> (real \<Rightarrow> real \<Rightarrow> real \<Rightarrow> string) \<Rightarrow> nat option \<Rightarrow>
   (detection list \<Rightarrow> detection list) \<Rightarrow> complex list \<Rightarrow> nat \<Rightarrow> detection list" where
  "detect_rfi_patterns_complex_with est cls cap filt complex_data sample_rate =
     (if sample_rate = 0 then []
      else if num_windows (length complex_data) < 0 then []
      else
        let nw = nat (num_windows (length complex_data));
            frequencies = fftshift (fftfreq 4096 (1 / real sample_rate));
            spectrogram_db = map (map to_db) (complex_spectrogram complex_data nw);
            time_axis = complex_times nw sample_rate
        in filt (complex_candidates est cls cap frequencies time_axis spectrogram_db))"

definition services_detect_rfi_patterns_complex :: "complex list \<Rightarrow> nat \<Rightarrow> detection list" where
  "services_detect_rfi_patterns_complex =
     detect_rfi_patterns_complex_with services_estimate_bandwidth services_classify_interference
       (Some 200) services_filter_nearby_detections"

definition detect_rfi_patterns_complex :: "complex list \<Rightarrow> nat \<Rightarrow> detection list" where
  "detect_rfi_patterns_complex =
     detect_rfi_patterns_complex_with estimate_bandwidth classify_interference None
       filter_nearby_detections_default"

section \<open>Reading the sample file: \<^verbatim>\<open>_analyze_audio_file\<close>\<close>

text \<open>
  What the run reads from storage. \<^verbatim>\<open>scipy.io.wavfile.read\<close> returns the sampling rate
  and a one- or two-dimensional array, or raises when the file is missing or is not a
  WAV file; opening a raw file raises when it is missing, and otherwise its bytes are
  read as complex samples of 8 bytes each; \<^verbatim>\<open>os.path.getsize\<close> returns the size in bytes.
\<close>

datatype wav_data = Mono "real list" | Multi "real list list"

record storage =
  wavfile_read :: "string \<Rightarrow> error + nat \<times> wav_data"
  raw_samples :: "string \<Rightarrow> error + complex list"
  getsize :: "string \<Rightarrow> error + nat"

text \<open>The columns of a \<^verbatim>\<open>Recording\<close> row that the run reads or writes.\<close>

record recording =
  rec_file_path :: string
  rec_sample_rate :: "nat option"
  rec_processed :: bool
  rec_rfi_detected :: bool
  rec_duration :: "real option"
  rec_processing_completed_at :: bool

text \<open>\<^verbatim>\<open>file_path.lower().endswith('.wav')\<close>, on ASCII letters: a capital letter has
  the codes 65 to 90 and its small letter the code 32 higher, which is bit 5 set.\<close>

definition lower_char :: "char \<Rightarrow> char" where
  "lower_char c =
     (if 65 \<le> (of_char c :: nat) \<and> (of_char c :: nat) \<le> 90
      then (case c of Char b0 b1 b2 b3 b4 b5 b6 b7 \<Rightarrow> Char b0 b1 b2 b3 b4 True b6 b7)
      else c)"

definition is_wav :: "string \<Rightarrow> bool" where
  "is_wav file_path =
     (4 \<le> length file_path \<and> drop (length file_path - 4) (map lower_char file_path) = ''.wav'')"

text \<open>
  \<^verbatim>\<open>_analyze_raw_data\<close>: at most 1000000 samples are read; the sampling rate is
  \<^verbatim>\<open>recording.sample_rate or 2048000\<close>. Any exception is caught and gives the empty list.
\<close>

definition analyze_raw_data :: "storage \<Rightarrow> string \<Rightarrow> recording \<Rightarrow> detection list" where
  "analyze_raw_data st file_path recording =
     (case raw_samples st file_path of
        Inl e \<Rightarrow> []
      | Inr samples \<Rightarrow>
          let raw_data = take 1000000 samples;
              sample_rate = (case rec_sample_rate recording of
                               None \<Rightarrow> 2048000
                             | Some r \<Rightarrow> if r = 0 then 2048000 else r)
          in services_detect_rfi_patterns_complex raw_data sample_rate)"

text \<open>
  \<^verbatim>\<open>_analyze_audio_file\<close> of \<^verbatim>\<open>src/SDRSCI/services/rfi_detector.py\<close>: the detections and
  the recording, whose sampling rate it sets. The whole body is inside
  \<^verbatim>\<open>try: ... except Exception: return []\<close>, so a file that cannot be read gives the
  empty list; so does an empty array, on which \<^verbatim>\<open>np.max\<close> raises.
\<close>

definition analyze_audio_file ::
  "storage \<Rightarrow> string \<Rightarrow> recording \<Rightarrow> detection list \<times> recording" where
  "analyze_audio_file st file_path recording =
     (if is_wav file_path then
        (case wavfile_read st file_path of
           Inl e \<Rightarrow> ([], recording)
         | Inr (sample_rate, data) \<Rightarrow>
             let mono = (case data of
                           Mono xs \<Rightarrow> xs
                         | Multi rows \<Rightarrow> map (\<lambda>r. sum_list r / real (length r)) rows);
                 max_samples = sample_rate * 30;
                 audio_data = (if length mono > max_samples then take max_samples mono else mono)
             in if audio_data = [] then ([], recording)
                else
                  let peak = Max (set (map abs audio_data));
                      normalized = (if peak > 0 then map (\<lambda>x. x / peak) audio_data
                                    else audio_data)
                  in (services_detect_rfi_patterns_fast normalized sample_rate,
                      recording\<lparr>rec_sample_rate := Some sample_rate\<rparr>))
      else (analyze_raw_data st file_path recording, recording))"

text \<open>\<^verbatim>\<open>_get_audio_duration\<close>: \<^verbatim>\<open>None\<close> on any exception.\<close>

definition get_audio_duration :: "storage \<Rightarrow> string \<Rightarrow> real option" where
  "get_audio_duration st file_path =
     (if is_wav file_path then
        (case wavfile_read st file_path of
           Inl e \<Rightarrow> None
         | Inr (sample_rate, data) \<Rightarrow>
             if sample_rate = 0 then None
             else Some (real (case data of Mono xs \<Rightarrow> length xs | Multi rows \<Rightarrow> length rows)
                        / real sample_rate))
      else
        (case getsize st file_path of
           Inl e \<Rightarrow> None
         | Inr file_size \<Rightarrow> Some (real file_size / (2048000 * 4))))"

section \<open>The processing run: \<^verbatim>\<open>_process_recording\<close>\<close>

text \<open>
  The \<^verbatim>\<open>ProcessingQueue\<close> row of a recording (its status is one of the strings
  \<^verbatim>\<open>pending\<close>, \<^verbatim>\<open>processing\<close>, \<^verbatim>\<open>completed\<close>, \<^verbatim>\<open>failed\<close>; for the two time stamps only
  whether they are set is kept), the events sent with \<^verbatim>\<open>socketio.emit\<close>, and the state
  the run works on: the queue rows and recordings by recording id, the
  \<^verbatim>\<open>RFIDetection\<close> rows added, and the events emitted so far.
\<close>

record queue_item =
  q_status :: string
  q_started_at :: bool
  q_completed_at :: bool
  q_error_message :: "error option"

datatype event =
    ProcessingStarted nat
  | DetectionProgress nat nat
  | ProcessingCompleted nat nat bool
  | ProcessingFailed nat error

record world =
  queue :: "nat \<rightharpoonup> queue_item"
  recordings :: "nat \<rightharpoonup> recording"
  rfi_detections :: "(nat \<times> detection) list"
  emitted :: "event list"

text \<open>
  Lines 30 to 41: if the recording has a queue row, it is set to \<^verbatim>\<open>processing\<close> and
  \<^verbatim>\<open>processing_started\<close> is emitted; without a row nothing happens.
\<close>

definition mark_processing :: "nat \<Rightarrow> world \<Rightarrow> world" where
  "mark_processing recording_id w =
     (case queue w recording_id of
        None \<Rightarrow> w
      | Some q \<Rightarrow>
          w\<lparr>queue := (queue w)(recording_id \<mapsto> q\<lparr>q_status := ''processing'', q_started_at := True\<rparr>),
            emitted := emitted w @ [ProcessingStarted recording_id]\<rparr>)"

text \<open>
  The loop that adds one row per detection and emits \<^verbatim>\<open>detection_progress\<close> after every
  tenth; \<open>n\<close> is \<^verbatim>\<open>detection_count\<close>.
\<close>

fun save_detections :: "nat \<Rightarrow> detection list \<Rightarrow> nat \<Rightarrow> world \<Rightarrow> world" where
  "save_detections recording_id [] n w = w"
| "save_detections recording_id (d # ds) n w =
     (let w1 = w\<lparr>rfi_detections := rfi_detections w @ [(recording_id, d)]\<rparr>;
          w2 = (if Suc n mod 10 = 0
                then w1\<lparr>emitted := emitted w1 @ [DetectionProgress recording_id (Suc n)]\<rparr>
                else w1)
      in save_detections recording_id ds (Suc n) w2)"

text \<open>
  The body of the \<^verbatim>\<open>try\<close> block: the state it leaves, and the exception if it raised.
  The only \<^verbatim>\<open>raise\<close> is the one for a missing recording.
\<close>

definition try_block :: "storage \<Rightarrow> nat \<Rightarrow> world \<Rightarrow> world \<times> error option" where
  "try_block st recording_id w =
     (let w1 = mark_processing recording_id w in
      case recordings w1 recording_id of
        None \<Rightarrow> (w1, Some (RecordingNotFound recording_id))
      | Some recording \<Rightarrow>
          let (detections, recording1) = analyze_audio_file st (rec_file_path recording) recording;
              w2 = save_detections recording_id detections 0 w1;
              recording2 = recording1\<lparr>rec_processed := True,
                             rec_rfi_detected := (length detections > 0),
                             rec_duration := get_audio_duration st (rec_file_path recording1),
                             rec_processing_completed_at := True\<rparr>;
              queue2 = (case queue w recording_id of
                          None \<Rightarrow> queue w2
                        | Some q0 \<Rightarrow>
                            (case queue w2 recording_id of
                               None \<Rightarrow> queue w2
                             | Some q \<Rightarrow> (queue w2)(recording_id \<mapsto>
                                 q\<lparr>q_status := ''completed'', q_completed_at := True\<rparr>)));
              w3 = w2\<lparr>queue := queue2,
                      recordings := (recordings w2)(recording_id \<mapsto> recording2),
                      emitted := emitted w2 @
                        [ProcessingCompleted recording_id (length detections)
                           (rec_rfi_detected recording2)]\<rparr>
          in (w3, None))"

text \<open>The \<^verbatim>\<open>except\<close> block: the queue row is looked up again.\<close>

definition except_block :: "nat \<Rightarrow> error \<Rightarrow> world \<Rightarrow> world" where
  "except_block recording_id e w =
     (case queue w recording_id of
        None \<Rightarrow> w
      | Some q \<Rightarrow>
          w\<lparr>queue := (queue w)(recording_id \<mapsto>
               q\<lparr>q_status := ''failed'', q_error_message := Some e, q_completed_at := True\<rparr>),
            emitted := emitted w @ [ProcessingFailed recording_id e]\<rparr>)"

definition process_recording :: "storage \<Rightarrow> nat \<Rightarrow> world \<Rightarrow> world" where
  "process_recording st recording_id w =
     (case try_block st recording_id w of
        (w', None) \<Rightarrow> w'
      | (w', Some e) \<Rightarrow> except_block recording_id e w')"

section \<open>Example inputs\<close>

text \<open>
  A storage on which every read raises, a recording with the given path, a pending queue
  row, and the states holding recording 1 with and without a queue row.
\<close>

definition unreadable_storage :: storage where
  "unreadable_storage = \<lparr>wavfile_read = (\<lambda>p. Inl Unreadable), raw_samples = (\<lambda>p. Inl Unreadable),
     getsize = (\<lambda>p. Inl Unreadable)\<rparr>"

definition example_recording :: "string \<Rightarrow> recording" where
  "example_recording p = \<lparr>rec_file_path = p, rec_sample_rate = None, rec_processed = False,
     rec_rfi_detected = False, rec_duration = None, rec_processing_completed_at = False\<rparr>"

definition pending_item :: queue_item where
  "pending_item = \<lparr>q_status = ''pending'', q_started_at = False, q_completed_at = False,
     q_error_message = None\<rparr>"

definition queued_world :: "string \<Rightarrow> world" where
  "queued_world p = \<lparr>queue = [1 \<mapsto> pending_item], recordings = [1 \<mapsto> example_recording p],
     rfi_detections = [], emitted = []\<rparr>"

definition unqueued_world :: "string \<Rightarrow> world" where
  "unqueued_world p = \<lparr>queue = Map.empty, recordings = [1 \<mapsto> example_recording p],
     rfi_detections = [], emitted = []\<rparr>"

text \<open>
  The dB spectrogram of one frame in which 250 of the 4096 bins hold 100 dB and the
  others 0 dB, as a wideband signal over a quiet band gives.
\<close>

definition wideband_frame :: "real list list" where
  "wideband_frame = replicate 250 [100] @ replicate 3846 [0]"

text \<open>
  Two small dB spectrograms with one cell above the threshold: one frequency bin over
  5 frames for the real-valued path, one bin over 17 frames for the complex-valued path.
\<close>

definition tone_row :: "real list list" where
  "tone_row = [[0, 0, 0, 0, 5]]"

definition spike_row :: "real list list" where
  "spike_row = [[0, 0, 0, 0, 0, 0, 0, 0, 0, 0, 0, 0, 0, 0, 0, 0, 17]]"

text \<open>A detection with the given timestamp, frequency and power level, for examples.\<close>

definition det :: "real \<Rightarrow> real \<Rightarrow> real \<Rightarrow> detection" where
  "det t f p = \<lparr>timestamp = t, frequency = f, power_level = p, bandwidth = 1,
     confidence = 1, kind = ''unknown''\<rparr>"

text \<open>Sixty detections of equal power, one second apart.\<close>

definition spaced_detections :: "detection list" where
  "spaced_detections = map (\<lambda>k. det (real k) 1000 (- 10)) [0..<60]"

section \<open>Properties of the acceptance loop\<close>

lemma too_close_sym: "too_close tt ft d e \<longleftrightarrow> too_close tt ft e d"
  by (auto simp: too_close_def abs_minus_commute)

lemma accept_loop_extends:
  "\<exists>ys. accept_loop tt ft cap acc ds = acc @ ys \<and> subseq ys ds"
proof (induction ds arbitrary: acc)
  case Nil
  then show ?case by simp
next
  case (Cons d ds)
  show ?case
  proof (cases "list_ex (too_close tt ft d) acc")
    case True
    from Cons.IH [of acc] obtain ys where
      "accept_loop tt ft cap acc ds = acc @ ys" "subseq ys ds" by blast
    with True show ?thesis by (auto intro: subseq_Cons')
  next
    case False
    show ?thesis
    proof (cases "case cap of None \<Rightarrow> False | Some c \<Rightarrow> c \<le> length (acc @ [d])")
      case True
      have "subseq [d] (d # ds)" by simp
      with True False show ?thesis by auto
    next
      case stop: False
      from Cons.IH [of "acc @ [d]"] obtain ys where
        ys: "accept_loop tt ft cap (acc @ [d]) ds = (acc @ [d]) @ ys" "subseq ys ds" by blast
      have "subseq (d # ys) (d # ds)" using ys(2) by simp
      with False stop ys(1) show ?thesis by auto
    qed
  qed
qed

lemma accept_loop_separated:
  "sorted_wrt (\<lambda>e d. \<not> too_close tt ft d e) acc \<Longrightarrow>
   sorted_wrt (\<lambda>e d. \<not> too_close tt ft d e) (accept_loop tt ft cap acc ds)"
proof (induction ds arbitrary: acc)
  case Nil
  then show ?case by simp
next
  case (Cons d ds)
  show ?case
  proof (cases "list_ex (too_close tt ft d) acc")
    case True
    with Cons show ?thesis by simp
  next
    case False
    then have "sorted_wrt (\<lambda>e d. \<not> too_close tt ft d e) (acc @ [d])"
      using Cons.prems by (simp add: sorted_wrt_append list_ex_iff)
    with Cons.IH [of "acc @ [d]"] False show ?thesis by simp
  qed
qed

lemma accept_loop_cap_take:
  "length acc < c \<Longrightarrow>
   accept_loop tt ft (Some c) acc ds = take c (accept_loop tt ft None acc ds)"
proof (induction ds arbitrary: acc)
  case Nil
  then show ?case by simp
next
  case (Cons d ds)
  show ?case
  proof (cases "list_ex (too_close tt ft d) acc")
    case True
    with Cons show ?thesis by simp
  next
    case False
    show ?thesis
    proof (cases "c \<le> length (acc @ [d])")
      case True
      obtain ys where "accept_loop tt ft None (acc @ [d]) ds = (acc @ [d]) @ ys"
        using accept_loop_extends by blast
      moreover from True Cons.prems have "c - length acc = Suc 0" by simp
      ultimately show ?thesis using True False Cons.prems by simp
    next
      case stop: False
      then have "length (acc @ [d]) < c" by simp
      from Cons.IH [OF this] False stop show ?thesis by simp
    qed
  qed
qed

lemma accept_loop_fixpoint:
  "sorted_wrt (\<lambda>e d. \<not> too_close tt ft d e) (acc @ ys) \<Longrightarrow>
   accept_loop tt ft None acc ys = acc @ ys"
proof (induction ys arbitrary: acc)
  case Nil
  then show ?case by simp
next
  case (Cons d ds)
  from Cons.prems have nc: "\<not> list_ex (too_close tt ft d) acc"
    by (auto simp: sorted_wrt_append list_ex_iff)
  from Cons.prems have "sorted_wrt (\<lambda>e d. \<not> too_close tt ft d e) ((acc @ [d]) @ ds)"
    by simp
  from Cons.IH [OF this] nc show ?case by simp
qed

lemma accept_loop_dominated:
  assumes "sorted (map (\<lambda>d. - power_level d) ds)"
    and "\<forall>a\<in>set acc. \<forall>x\<in>set ds. power_level x \<le> power_level a"
    and "d \<in> set ds"
  shows "d \<in> set (accept_loop tt ft None acc ds) \<or>
     (\<exists>e\<in>set (accept_loop tt ft None acc ds). too_close tt ft d e \<and> power_level d \<le> power_level e)"
  using assms
proof (induction ds arbitrary: acc)
  case Nil
  then show ?case by simp
next
  case (Cons d0 ds)
  let ?acc' = "if list_ex (too_close tt ft d0) acc then acc else acc @ [d0]"
  have step: "accept_loop tt ft None acc (d0 # ds) = accept_loop tt ft None ?acc' ds"
    by simp
  obtain ys where ys: "accept_loop tt ft None ?acc' ds = ?acc' @ ys"
    using accept_loop_extends by blast
  show ?case
  proof (cases "d = d0")
    case True
    show ?thesis
    proof (cases "list_ex (too_close tt ft d0) acc")
      case tc: True
      then obtain e where e: "e \<in> set acc" "too_close tt ft d0 e"
        by (auto simp: list_ex_iff)
      with Cons.prems(2) have "power_level d0 \<le> power_level e" by simp
      with e tc ys True show ?thesis unfolding step by auto
    next
      case False
      with ys True show ?thesis unfolding step by auto
    qed
  next
    case False
    with Cons.prems(3) have mem: "d \<in> set ds" by simp
    from Cons.prems(1) have srt: "sorted (map (\<lambda>d. - power_level d) ds)"
      and le: "\<forall>x\<in>set ds. power_level x \<le> power_level d0" by auto
    from Cons.prems(2) le have "\<forall>a\<in>set ?acc'. \<forall>x\<in>set ds. power_level x \<le> power_level a"
      by auto
    from Cons.IH [OF srt this mem] show ?thesis unfolding step .
  qed
qed

lemma sorted_sort_by_power: "sorted (map (\<lambda>d. - power_level d) (sort_by_power ds))"
  by (simp add: sort_by_power_def)

lemma set_sort_by_power: "set (sort_by_power ds) = set ds"
  by (simp add: sort_by_power_def)

lemma subseq_sorted_wrt: "subseq ys xs \<Longrightarrow> sorted_wrt P xs \<Longrightarrow> sorted_wrt P ys"
proof (induction xs arbitrary: ys)
  case Nil
  then show ?case by (auto dest: list_emb_Nil2)
next
  case (Cons x xs)
  show ?case
  proof (cases ys)
    case Nil
    then show ?thesis by simp
  next
    case (Cons y ys')
    show ?thesis
    proof (cases "x = y")
      case True
      with Cons Cons.prems have sub: "subseq ys' xs" by simp
      then have "set ys' \<subseteq> set xs" by (auto elim: list_emb_set)
      with Cons.IH [OF sub] Cons.prems(2) Cons True show ?thesis by auto
    next
      case False
      with Cons Cons.prems have "subseq ys xs" by simp
      with Cons.IH Cons.prems(2) show ?thesis by simp
    qed
  qed
qed

lemma subseq_sorted_neg:
  "subseq ys xs \<Longrightarrow> sorted (map (\<lambda>d. - power_level d) xs) \<Longrightarrow>
   sorted (map (\<lambda>d. - power_level d) ys)"
  unfolding sorted_map by (rule subseq_sorted_wrt)

text \<open>The list the acceptance loop returns when it starts from the empty list.\<close>

lemma uncapped_subseq: "subseq (accept_loop tt ft None [] xs) xs"
  using accept_loop_extends [of tt ft None "[]" xs] by auto

lemma uncapped_separated:
  "sorted_wrt (\<lambda>e d. \<not> too_close tt ft d e) (accept_loop tt ft None [] xs)"
  by (rule accept_loop_separated) simp

lemma uncapped_head:
  "accept_loop tt ft None [] (x # xs) = x # tl (accept_loop tt ft None [] (x # xs))"
  using accept_loop_extends [of tt ft None "[x]" xs] by auto

lemma capped_is_take:
  "accept_loop tt ft (Some 50) [] xs = take 50 (accept_loop tt ft None [] xs)"
  by (rule accept_loop_cap_take) simp

lemma sort_by_power_head:
  assumes "ds \<noteq> []"
  obtains s ss where "sort_by_power ds = s # ss" and "s \<in> set ds"
    and "\<forall>x\<in>set ds. power_level x \<le> power_level s"
proof -
  from assms have "sort_by_power ds \<noteq> []"
    by (metis set_sort_by_power set_empty)
  then obtain s ss where eq: "sort_by_power ds = s # ss" by (cases "sort_by_power ds") auto
  have "sorted (map (\<lambda>d. - power_level d) (s # ss))"
    using sorted_sort_by_power [of ds] eq by simp
  then have mx: "\<forall>x\<in>set (s # ss). power_level x \<le> power_level s" by auto
  have st: "set (s # ss) = set ds" using set_sort_by_power [of ds] eq by simp
  have "s \<in> set ds" using st by auto
  moreover have "\<forall>x\<in>set ds. power_level x \<le> power_level s" using mx unfolding st .
  ultimately show ?thesis using that eq by blast
qed

lemma sort_by_power_id:
  "sorted (map (\<lambda>d. - power_level d) xs) \<Longrightarrow> sort_by_power xs = xs"
  unfolding sort_by_power_def by (rule sort_key_id_if_sorted)

lemma desc_iff:
  "sorted (map (\<lambda>d. - power_level d) xs) \<longleftrightarrow>
   sorted_wrt (\<lambda>a b. power_level b \<le> power_level a) xs"
  by (simp add: sorted_map)

section \<open>Deduplication: the claims\<close>

lemma uncapped_strongest:
  assumes "ds \<noteq> []"
  shows "\<exists>s ys. accept_loop tt ft None [] (sort_by_power ds) = s # ys \<and> s \<in> set ds \<and>
     (\<forall>x\<in>set ds. power_level x \<le> power_level s)"
proof -
  from assms obtain s ss where eq: "sort_by_power ds = s # ss" and s: "s \<in> set ds"
    and mx: "\<forall>x\<in>set ds. power_level x \<le> power_level s"
    by (rule sort_by_power_head)
  have "accept_loop tt ft None [] (s # ss) = s # tl (accept_loop tt ft None [] (s # ss))"
    by (rule uncapped_head)
  with eq s mx show ?thesis by metis
qed

lemma uncapped_desc:
  "sorted_wrt (\<lambda>a b. power_level b \<le> power_level a) (accept_loop tt ft None [] (sort_by_power ds))"
  unfolding desc_iff [symmetric]
  by (rule subseq_sorted_neg [OF uncapped_subseq sorted_sort_by_power])

text \<open>
  Claim C9. For a non-empty input list both deduplication variants return a non-empty
  list; its first element is a detection of the input whose power level is maximal
  among the input, so the strongest detection is always accepted, and the output is in
  order of non-increasing power level.
\<close>

theorem strongest_always_accepted:
  assumes "ds \<noteq> []"
  shows "(\<exists>s ys. filter_nearby_detections tt ft ds = s # ys \<and> s \<in> set ds \<and>
            (\<forall>x\<in>set ds. power_level x \<le> power_level s)) \<and>
         sorted_wrt (\<lambda>a b. power_level b \<le> power_level a) (filter_nearby_detections tt ft ds) \<and>
         (\<exists>s ys. services_filter_nearby_detections ds = s # ys \<and> s \<in> set ds \<and>
            (\<forall>x\<in>set ds. power_level x \<le> power_level s)) \<and>
         sorted_wrt (\<lambda>a b. power_level b \<le> power_level a) (services_filter_nearby_detections ds)"
proof -
  let ?u = "\<lambda>tt ft. accept_loop tt ft None [] (sort_by_power ds)"
  have f: "filter_nearby_detections tt ft ds = ?u tt ft"
    using assms by (simp add: filter_nearby_detections_def)
  have g: "services_filter_nearby_detections ds = take 50 (?u (1 / 10) 1000)"
    using assms by (simp add: services_filter_nearby_detections_def capped_is_take)
  from uncapped_strongest [OF assms, of "1 / 10" 1000] obtain s ys where
    u: "?u (1 / 10) 1000 = s # ys" "s \<in> set ds" "\<forall>x\<in>set ds. power_level x \<le> power_level s"
    by blast
  have "take 50 (?u (1 / 10) 1000) = s # take 49 ys" unfolding u(1) by simp
  with u have "\<exists>s ys. services_filter_nearby_detections ds = s # ys \<and> s \<in> set ds \<and>
            (\<forall>x\<in>set ds. power_level x \<le> power_level s)" unfolding g by blast
  moreover have "sorted_wrt (\<lambda>a b. power_level b \<le> power_level a)
      (services_filter_nearby_detections ds)"
    unfolding g by (rule sorted_wrt_take [OF uncapped_desc])
  ultimately show ?thesis
    unfolding f using uncapped_strongest [OF assms, of tt ft] uncapped_desc [of tt ft ds]
    by blast
qed

theorem strongest_always_accepted_witness:
  "[det 0 100 (-30), det 0 200 (-10), det 5 100 (-20)] \<noteq> [] \<and>
   hd (services_filter_nearby_detections [det 0 100 (-30), det 0 200 (-10), det 5 100 (-20)])
     = det 0 200 (-10) \<and>
   hd (filter_nearby_detections (1 / 10) 10000 [det 0 100 (-30), det 0 200 (-10), det 5 100 (-20)])
     = det 0 200 (-10)"
  using strongest_always_accepted [of "[det 0 100 (-30), det 0 200 (-10), det 5 100 (-20)]" "1 / 10" 10000]
  by (simp add: services_filter_nearby_detections_def filter_nearby_detections_def
      sort_by_power_def det_def too_close_def)

text \<open>
  Claim C8. Deduplication is idempotent: filtering an already filtered list returns it
  unchanged, for the variant without a cap (any thresholds) and for the variant with the
  cap of 50.
\<close>

theorem dedupe_idempotent:
  "filter_nearby_detections tt ft (filter_nearby_detections tt ft ds) =
     filter_nearby_detections tt ft ds \<and>
   services_filter_nearby_detections (services_filter_nearby_detections ds) =
     services_filter_nearby_detections ds"
proof (cases "ds = []")
  case True
  then show ?thesis
    by (simp add: filter_nearby_detections_def services_filter_nearby_detections_def)
next
  case False
  let ?u = "\<lambda>tt ft. accept_loop tt ft None [] (sort_by_power ds)"
  have f: "filter_nearby_detections tt ft ds = ?u tt ft"
    using False by (simp add: filter_nearby_detections_def)
  have g: "services_filter_nearby_detections ds = take 50 (?u (1 / 10) 1000)"
    using False by (simp add: services_filter_nearby_detections_def capped_is_take)
  have srt: "sorted (map (\<lambda>d. - power_level d) (?u tt ft))" for tt ft
    by (rule subseq_sorted_neg [OF uncapped_subseq sorted_sort_by_power])
  have sep: "sorted_wrt (\<lambda>e d. \<not> too_close tt ft d e) (?u tt ft)" for tt ft
    by (rule uncapped_separated)
  have fxp: "accept_loop tt ft None [] (?u tt ft) = ?u tt ft"
    using accept_loop_fixpoint [of tt ft "[]" "?u tt ft"] sep by simp
  have one: "filter_nearby_detections tt ft (?u tt ft) = ?u tt ft"
    by (simp add: filter_nearby_detections_def sort_by_power_id [OF srt] fxp)
  let ?c = "take 50 (?u (1 / 10) 1000)"
  have srt_c: "sorted (map (\<lambda>d. - power_level d) ?c)"
    unfolding desc_iff by (rule sorted_wrt_take) (use srt desc_iff in blast)
  have sep_c: "sorted_wrt (\<lambda>e d. \<not> too_close (1 / 10) 1000 d e) ?c"
    by (rule sorted_wrt_take [OF sep])
  have "accept_loop (1 / 10) 1000 None [] ?c = ?c"
    using accept_loop_fixpoint [of "1 / 10" 1000 "[]" ?c] sep_c by simp
  then have two: "services_filter_nearby_detections ?c = ?c"
    by (simp add: services_filter_nearby_detections_def sort_by_power_id [OF srt_c]
        capped_is_take)
  from one two show ?thesis unfolding f g by simp
qed

lemma uncapped_dominated:
  assumes "d \<in> set ds"
  shows "d \<in> set (accept_loop tt ft None [] (sort_by_power ds)) \<or>
     (\<exists>e\<in>set (accept_loop tt ft None [] (sort_by_power ds)).
        too_close tt ft d e \<and> power_level d \<le> power_level e)"
proof -
  have "d \<in> set (sort_by_power ds)" using assms by (simp add: set_sort_by_power)
  then show ?thesis
    using accept_loop_dominated [OF sorted_sort_by_power, of "[]" ds d tt ft] by simp
qed

lemma separated_nth:
  assumes "sorted_wrt (\<lambda>e d. \<not> too_close tt ft d e) xs" and "i < j" and "j < length xs"
  shows "\<not> too_close tt ft (xs ! i) (xs ! j)"
  using assms too_close_sym [of tt ft "xs ! i" "xs ! j"]
  by (auto simp: sorted_wrt_iff_nth_less)

section \<open>The processing run: the claims\<close>

lemma save_detections_fields:
  "queue (save_detections rid ds n w) = queue w \<and>
   recordings (save_detections rid ds n w) = recordings w \<and>
   rfi_detections (save_detections rid ds n w) = rfi_detections w @ map (Pair rid) ds \<and>
   emitted (save_detections rid ds n w) =
     emitted w @ map (DetectionProgress rid) (filter (\<lambda>k. k mod 10 = 0) [Suc n..<Suc n + length ds])"
proof (induction ds arbitrary: n w)
  case Nil
  then show ?case by simp
next
  case (Cons d ds)
  have "[Suc n..<Suc n + length (d # ds)] = Suc n # [Suc (Suc n)..<Suc (Suc n) + length ds]"
    by (subst upt_rec) simp
  then show ?case using Cons.IH by (simp add: Let_def)
qed

lemma unreadable_analysis:
  assumes "(is_wav (rec_file_path r) \<and> wavfile_read st (rec_file_path r) = Inl e) \<or>
     (\<not> is_wav (rec_file_path r) \<and> raw_samples st (rec_file_path r) = Inl e)"
  shows "analyze_audio_file st (rec_file_path r) r = ([], r)"
  using assms by (auto simp: analyze_audio_file_def analyze_raw_data_def)

text \<open>
  Claim C1, as amended. \<^verbatim>\<open>_analyze_audio_file\<close> catches the exception of a sample
  file that cannot be read and returns no detections, so the run does not fail: for a
  recording with a pending queue row whose file is unreadable, the row goes from pending
  to processing to completed, the events emitted are one \<^verbatim>\<open>processing_started\<close> and one
  \<^verbatim>\<open>processing_completed\<close> with count 0, no detection is stored, and the recording is
  marked processed with no interference detected.
\<close>

theorem unreadable_file_run_completes:
  assumes "queue w rid = Some q" and "q_status q = ''pending''" and "recordings w rid = Some r"
    and "(is_wav (rec_file_path r) \<and> wavfile_read st (rec_file_path r) = Inl e) \<or>
         (\<not> is_wav (rec_file_path r) \<and> raw_samples st (rec_file_path r) = Inl e)"
  shows "map_option q_status (queue (mark_processing rid w) rid) = Some ''processing'' \<and>
    map_option q_status (queue (process_recording st rid w) rid) = Some ''completed'' \<and>
    emitted (process_recording st rid w) =
      emitted w @ [ProcessingStarted rid, ProcessingCompleted rid 0 False] \<and>
    rfi_detections (process_recording st rid w) = rfi_detections w \<and>
    map_option rec_processed (recordings (process_recording st rid w) rid) = Some True \<and>
    map_option rec_rfi_detected (recordings (process_recording st rid w) rid) = Some False"
proof -
  have an: "analyze_audio_file st (rec_file_path r) r = ([], r)"
    by (rule unreadable_analysis [OF assms(4)])
  have mp: "recordings (mark_processing rid w) rid = Some r"
    using assms(1,3) by (simp add: mark_processing_def)
  show ?thesis
    using assms(1,3) an mp
    by (simp add: process_recording_def try_block_def mark_processing_def Let_def)
qed

theorem unreadable_file_run_completes_witness:
  "map_option q_status (queue (mark_processing 1 (queued_world ''capture.WAV'')) 1)
     = Some ''processing'' \<and>
   map_option q_status
     (queue (process_recording unreadable_storage 1 (queued_world ''capture.WAV'')) 1)
     = Some ''completed'' \<and>
   emitted (process_recording unreadable_storage 1 (queued_world ''capture.WAV''))
     = [ProcessingStarted 1, ProcessingCompleted 1 0 False]"
  using unreadable_file_run_completes [of "queued_world ''capture.WAV''" 1 pending_item
      "example_recording ''capture.WAV''" unreadable_storage Unreadable]
  by (simp add: queued_world_def pending_item_def example_recording_def unreadable_storage_def
      is_wav_def lower_char_def)

text \<open>
  Claim C1 as stated fails: for the queued recording \<^verbatim>\<open>capture.wav\<close> on a storage where
  every read raises, the run ends with the queue row completed, not failed, and emits
  \<^verbatim>\<open>processing_completed\<close> and no \<^verbatim>\<open>processing_failed\<close>.
\<close>

theorem unreadable_file_not_failed:
  "map_option q_status
     (queue (process_recording unreadable_storage 1 (queued_world ''capture.wav'')) 1)
     = Some ''completed'' \<and>
   map_option q_status
     (queue (process_recording unreadable_storage 1 (queued_world ''capture.wav'')) 1)
     \<noteq> Some ''failed'' \<and>
   emitted (process_recording unreadable_storage 1 (queued_world ''capture.wav''))
     = [ProcessingStarted 1, ProcessingCompleted 1 0 False] \<and>
   ProcessingFailed 1 Unreadable
     \<notin> set (emitted (process_recording unreadable_storage 1 (queued_world ''capture.wav'')))"
  by (simp add: process_recording_def try_block_def mark_processing_def Let_def
      analyze_audio_file_def get_audio_duration_def
      queued_world_def pending_item_def example_recording_def unreadable_storage_def
      is_wav_def lower_char_def)

text \<open>
  Claim C10. When the recording exists and has no queue row, the run changes no queue
  row and emits no \<^verbatim>\<open>processing_started\<close>; it does not raise, analyses the file, stores
  one row per detection, marks the recording processed and emits
  \<^verbatim>\<open>processing_completed\<close> after the progress events, so a completed event comes with no
  started event before it. The \<^verbatim>\<open>except\<close> block, run on a state without the row, changes
  nothing and emits no \<^verbatim>\<open>processing_failed\<close>.
\<close>

theorem run_without_queue_row:
  assumes "queue w rid = None" and "recordings w rid = Some r"
  shows "queue (process_recording st rid w) = queue w \<and>
    snd (try_block st rid w) = None \<and>
    emitted (process_recording st rid w) =
      emitted w @
      map (DetectionProgress rid) (filter (\<lambda>k. k mod 10 = 0)
        [1..<Suc (length (fst (analyze_audio_file st (rec_file_path r) r)))]) @
      [ProcessingCompleted rid (length (fst (analyze_audio_file st (rec_file_path r) r)))
         (0 < length (fst (analyze_audio_file st (rec_file_path r) r)))] \<and>
    rfi_detections (process_recording st rid w) =
      rfi_detections w @ map (Pair rid) (fst (analyze_audio_file st (rec_file_path r) r)) \<and>
    map_option rec_processed (recordings (process_recording st rid w) rid) = Some True \<and>
    except_block rid e w = w \<and>
    except_block rid e (mark_processing rid w) = w"
proof -
  have mp: "mark_processing rid w = w" using assms(1) by (simp add: mark_processing_def)
  obtain ds r1 where an: "analyze_audio_file st (rec_file_path r) r = (ds, r1)"
    by (cases "analyze_audio_file st (rec_file_path r) r")
  note sf = save_detections_fields [of rid ds 0 w]
  show ?thesis
    using assms an sf
    by (simp add: process_recording_def try_block_def mp Let_def except_block_def)
qed

theorem run_without_queue_row_witness:
  "queue (unqueued_world ''capture.iq'') 1 = None \<and>
   queue (process_recording unreadable_storage 1 (unqueued_world ''capture.iq'')) = Map.empty \<and>
   emitted (process_recording unreadable_storage 1 (unqueued_world ''capture.iq''))
     = [ProcessingCompleted 1 0 False] \<and>
   map_option rec_processed
     (recordings (process_recording unreadable_storage 1 (unqueued_world ''capture.iq'')) 1)
     = Some True"
  using run_without_queue_row [of "unqueued_world ''capture.iq''" 1
      "example_recording ''capture.iq''" unreadable_storage Unreadable]
  by (simp add: unqueued_world_def example_recording_def unreadable_storage_def
      analyze_audio_file_def analyze_raw_data_def is_wav_def lower_char_def)

section \<open>The detection paths: lemmas\<close>

text \<open>The scan emits the cells above the threshold in scan order, up to the first 201.\<close>

lemma scan_frequencies_None:
  "scan_frequencies P mk None fs st = (fst st @ map mk (filter P fs), snd st + length (filter P fs))"
  by (induction fs arbitrary: st) (auto simp: over_def Let_def)

lemma scan_times_None:
  "scan_times (\<lambda>t. scan_frequencies (P t) (mk t) None fs) None ts st =
     (fst st @ concat (map (\<lambda>t. map (mk t) (filter (P t) fs)) ts),
      snd st + length (concat (map (\<lambda>t. filter (P t) fs) ts)))"
  by (induction ts arbitrary: st) (auto simp: over_def Let_def scan_frequencies_None)

lemma scan_frequencies_Some:
  assumes "snd st \<le> c"
  shows "scan_frequencies P mk (Some c) fs st =
     (fst st @ map mk (take (Suc c - snd st) (filter P fs)),
      snd st + length (take (Suc c - snd st) (filter P fs)))"
  using assms
proof (induction fs arbitrary: st)
  case Nil
  then show ?case by simp
next
  case (Cons f fs)
  show ?case
  proof (cases "P f")
    case False
    with Cons show ?thesis by simp
  next
    case True
    show ?thesis
    proof (cases "snd st = c")
      case True
      with \<open>P f\<close> show ?thesis by (simp add: over_def Let_def)
    next
      case False
      with Cons.prems have lt: "Suc (snd st) \<le> c" by simp
      have "Suc c - snd st = Suc (c - snd st)" using Cons.prems by simp
      with Cons.IH [of "(fst st @ [mk f], snd st + 1)"] lt \<open>P f\<close> show ?thesis
        by (simp add: over_def Let_def)
    qed
  qed
qed

lemma scan_times_Some:
  assumes "snd st \<le> c"
  shows "scan_times (\<lambda>t. scan_frequencies (P t) (mk t) (Some c) fs) (Some c) ts st =
     (fst st @ take (Suc c - snd st) (concat (map (\<lambda>t. map (mk t) (filter (P t) fs)) ts)),
      snd st + length (take (Suc c - snd st) (concat (map (\<lambda>t. filter (P t) fs) ts))))"
  using assms
proof (induction ts arbitrary: st)
  case Nil
  then show ?case by simp
next
  case (Cons t ts)
  let ?row = "filter (P t) fs"
  let ?st' = "scan_frequencies (P t) (mk t) (Some c) fs st"
  have st': "?st' = (fst st @ map (mk t) (take (Suc c - snd st) ?row),
      snd st + length (take (Suc c - snd st) ?row))"
    by (rule scan_frequencies_Some [OF Cons.prems])
  show ?case
  proof (cases "Suc c - snd st \<le> length ?row")
    case True
    then have "over (Some c) (snd ?st')" using Cons.prems by (simp add: st' over_def)
    with True show ?thesis by (simp add: st' Let_def take_map)
  next
    case False
    then have le: "snd ?st' \<le> c" and notover: "\<not> over (Some c) (snd ?st')"
      by (simp_all add: st' over_def)
    from False have tk: "take (Suc c - snd st) ?row = ?row" by simp
    have "Suc c - snd ?st' = Suc c - snd st - length ?row" by (simp add: st' tk)
    with Cons.IH [OF le] notover False show ?thesis
      by (simp add: Let_def st' tk)
  qed
qed

lemma concat_scan_product:
  "concat (map (\<lambda>t. map (mk t) (filter (P t) fs)) ts) =
   map (\<lambda>(t, f). mk t f) (filter (\<lambda>(t, f). P t f) (List.product ts fs))"
  by (induction ts) (simp_all add: filter_map comp_def)

lemma complex_scan_uncapped:
  "complex_scan P mk None nt nf =
     map (\<lambda>(t, f). mk t f) (filter (\<lambda>(t, f). P t f) (List.product [0..<nt] [0..<nf]))"
  by (simp add: complex_scan_def scan_times_None concat_scan_product)

lemma complex_scan_capped:
  "complex_scan P mk (Some c) nt nf =
     map (\<lambda>(t, f). mk t f)
       (take (Suc c) (filter (\<lambda>(t, f). P t f) (List.product [0..<nt] [0..<nf])))"
  by (simp add: complex_scan_def scan_times_Some concat_scan_product take_map)

lemma complex_scan_count:
  "length (complex_scan P mk (Some 200) nt nf) =
     min 201 (length (filter (\<lambda>(t, f). P t f) (List.product [0..<nt] [0..<nf])))"
  by (simp add: complex_scan_capped)

lemma sum_list_flat: "\<forall>x\<in>set xs. x = c \<Longrightarrow> sum_list xs = real (length xs) * (c::real)"
  by (induction xs) (auto simp: algebra_simps)

lemma flat_mean: "xs \<noteq> [] \<Longrightarrow> \<forall>x\<in>set xs. x = c \<Longrightarrow> np_mean xs = c"
  by (simp add: np_mean_def sum_list_flat)

lemma flat_std:
  assumes "xs \<noteq> []" and "\<forall>x\<in>set xs. x = c"
  shows "np_std xs = 0"
proof -
  have m: "np_mean xs = c" by (rule flat_mean [OF assms])
  have "\<forall>y\<in>set (map (\<lambda>x. (x - c)\<^sup>2) xs). y = 0" using assms(2) by auto
  then have "np_mean (map (\<lambda>x. (x - c)\<^sup>2) xs) = 0"
    using flat_mean [of "map (\<lambda>x. (x - c)\<^sup>2) xs" 0] assms(1) by simp
  then show ?thesis by (simp add: np_std_def m)
qed

lemma flat_median:
  assumes "xs \<noteq> []" and "\<forall>x\<in>set xs. x = c"
  shows "np_median xs = c"
proof -
  let ?s = "sort xs"
  have len: "length ?s = length xs" by simp
  have all: "\<forall>i<length xs. ?s ! i = c"
  proof (intro allI impI)
    fix i assume "i < length xs"
    then have "?s ! i \<in> set ?s" using len nth_mem by metis
    then show "?s ! i = c" using assms(2) by simp
  qed
  have pos: "0 < length xs" using assms(1) by simp
  then have "length xs div 2 < length xs" and "length xs div 2 - 1 < length xs" by linarith+
  with all show ?thesis by (simp add: np_median_def Let_def)
qed

lemma np_std_nonneg: "0 \<le> np_std xs"
proof -
  have "0 \<le> sum_list (map (\<lambda>x. (x - np_mean xs)\<^sup>2) xs)"
    by (rule sum_list_nonneg) auto
  then show ?thesis by (simp add: np_std_def np_mean_def)
qed

lemma sum_list_nonneg_zero:
  "\<forall>x\<in>set xs. 0 \<le> (x::real) \<Longrightarrow> sum_list xs = 0 \<Longrightarrow> \<forall>x\<in>set xs. x = 0"
  by (induction xs) (auto simp: add_nonneg_eq_0_iff sum_list_nonneg)

lemma std_zero_flat:
  assumes "xs \<noteq> []" and "np_std xs = 0"
  shows "\<forall>x\<in>set xs. x = np_mean xs"
proof -
  let ?sq = "map (\<lambda>x. (x - np_mean xs)\<^sup>2) xs"
  have "np_mean ?sq = 0"
    using assms(2) by (simp add: np_std_def)
  then have "sum_list ?sq = 0" using assms(1) by (simp add: np_mean_def)
  moreover have "\<forall>y\<in>set ?sq. 0 \<le> y" by auto
  ultimately have "\<forall>y\<in>set ?sq. y = 0" by (rule sum_list_nonneg_zero [rotated])
  then show ?thesis by auto
qed

lemma np_max_ge: "x \<in> set xs \<Longrightarrow> x \<le> np_max xs"
  by (simp add: np_max_def)

lemma set_every_fifth: "set (every_fifth xs) \<subseteq> set xs"
proof (induction xs rule: every_fifth.induct)
  case 1
  then show ?case by simp
next
  case (2 x xs)
  have "set (drop 4 xs) \<subseteq> set xs" by (rule set_drop_subset)
  with 2 show ?case by auto
qed

lemma peak_indices_mem:
  "(f, t) \<in> set (peak_indices sg thr) \<longleftrightarrow> f < length sg \<and> t < length (sg ! f) \<and> sg ! f ! t > thr"
  by (auto simp: peak_indices_def)

lemma cell_mem: "f < length sg \<Longrightarrow> t < length (sg ! f) \<Longrightarrow> sg ! f ! t \<in> set (concat sg)"
  by (metis UN_I nth_mem set_concat)

text \<open>No cell of a spectrogram lies above the median-based threshold when the deviation is zero.\<close>

lemma peak_needs_spread:
  assumes "(f, t) \<in> set (peak_indices sg (np_median (concat sg) + 2 * np_std (concat sg)))"
  shows "0 < np_std (concat sg)"
proof (rule ccontr)
  assume "\<not> 0 < np_std (concat sg)"
  then have z: "np_std (concat sg) = 0" using np_std_nonneg [of "concat sg"] by simp
  from assms have f: "f < length sg" and t: "t < length (sg ! f)"
    and gt: "sg ! f ! t > np_median (concat sg)"
    by (simp_all add: peak_indices_mem z)
  have mem: "sg ! f ! t \<in> set (concat sg)" by (rule cell_mem [OF f t])
  then have ne: "concat sg \<noteq> []" by (metis empty_iff empty_set)
  have flat: "\<forall>x\<in>set (concat sg). x = np_mean (concat sg)" by (rule std_zero_flat [OF ne z])
  have "np_median (concat sg) = np_mean (concat sg)" by (rule flat_median [OF ne flat])
  moreover from flat mem have "sg ! f ! t = np_mean (concat sg)" by blast
  ultimately show False using gt by linarith
qed

lemma fast_candidates_confidence:
  assumes "d \<in> set (fast_candidates fr tm sg sr w)"
  shows "0 < np_std (concat sg) \<and> 0 < confidence d \<and> confidence d \<le> 1"
proof -
  let ?thr = "np_median (concat sg) + 2 * np_std (concat sg)"
  from assms obtain idx where idx: "idx \<in> set (every_fifth (peak_indices sg ?thr))"
    and d: "d = fast_detection fr tm sg ?thr (np_std (concat sg)) sr w idx"
    by (auto simp: fast_candidates_def Let_def)
  from idx have pk: "(fst idx, snd idx) \<in> set (peak_indices sg ?thr)"
    using set_every_fifth by fastforce
  have sd: "0 < np_std (concat sg)" by (rule peak_needs_spread [OF pk])
  from pk have gt: "sg ! fst idx ! snd idx > ?thr" unfolding peak_indices_mem by simp
  have "confidence d = min ((sg ! fst idx ! snd idx - ?thr) / np_std (concat sg)) 1"
    by (simp add: d fast_detection_def Let_def)
  moreover have "0 < (sg ! fst idx ! snd idx - ?thr) / np_std (concat sg)"
    using gt sd by simp
  ultimately show ?thesis using sd by simp
qed

lemma flat_no_peaks:
  assumes "\<forall>x\<in>set (concat sg). x = c"
  shows "peak_indices sg (np_median (concat sg) + 2 * np_std (concat sg)) = []"
proof (rule ccontr)
  assume "peak_indices sg (np_median (concat sg) + 2 * np_std (concat sg)) \<noteq> []"
  then obtain f t where pk:
    "(f, t) \<in> set (peak_indices sg (np_median (concat sg) + 2 * np_std (concat sg)))"
    by (metis last_in_set surj_pair)
  then have "0 < np_std (concat sg)" by (rule peak_needs_spread)
  moreover from pk have "sg ! f ! t \<in> set (concat sg)"
    unfolding peak_indices_mem using cell_mem by blast
  then have "concat sg \<noteq> []" by (metis empty_iff empty_set)
  ultimately show False using flat_std [OF _ assms] by simp
qed

lemma set_limit_detections: "set (limit_detections ds) \<subseteq> set ds"
  using set_take_subset [of 100 "sort_by_power ds"]
  by (auto simp: limit_detections_def set_sort_by_power)

lemma set_accept_loop: "set (accept_loop tt ft cap [] xs) \<subseteq> set xs"
proof -
  obtain ys where "accept_loop tt ft cap [] xs = [] @ ys" "subseq ys xs"
    using accept_loop_extends by blast
  then show ?thesis by (auto elim: list_emb_set)
qed

lemma set_services_filter: "set (services_filter_nearby_detections ds) \<subseteq> set ds"
  using set_accept_loop [of "1 / 10" 1000 "Some 50" "sort_by_power ds"]
  by (auto simp: services_filter_nearby_detections_def set_sort_by_power)

lemma set_default_filter: "set (filter_nearby_detections_default ds) \<subseteq> set ds"
  using set_accept_loop [of "1 / 10" 10000 None "sort_by_power ds"]
  by (auto simp: filter_nearby_detections_default_def filter_nearby_detections_def
      set_sort_by_power)

lemma complex_scan_mem:
  assumes "d \<in> set (complex_scan P mk cap nt nf)"
  shows "\<exists>t<nt. \<exists>f<nf. P t f \<and> d = mk t f"
proof -
  let ?all = "map (\<lambda>(t, f). mk t f) (filter (\<lambda>(t, f). P t f) (List.product [0..<nt] [0..<nf]))"
  have "set (complex_scan P mk cap nt nf) \<subseteq> set ?all"
  proof (cases cap)
    case None
    then show ?thesis by (simp add: complex_scan_uncapped)
  next
    case (Some c)
    then show ?thesis
      using set_take_subset [of "Suc c" "filter (\<lambda>(t, f). P t f) (List.product [0..<nt] [0..<nf])"]
      by (auto simp: complex_scan_capped)
  qed
  with assms have "d \<in> set ?all" by blast
  then obtain t f where "(t, f) \<in> set (List.product [0..<nt] [0..<nf])" "P t f" "d = mk t f"
    by auto
  then show ?thesis by auto
qed

lemma complex_candidate_cell:
  assumes "length fr \<le> length sg" and "\<forall>row\<in>set sg. length tm \<le> length row"
    and "d \<in> set (complex_candidates est cls cap fr tm sg)"
  shows "\<exists>t<length tm. \<exists>f<length fr.
     sg ! f ! t \<in> set (concat sg) \<and>
     np_mean (concat sg) + 3 * np_std (concat sg) < sg ! f ! t \<and>
     d = complex_detection est cls fr tm sg (np_mean (concat sg) + 3 * np_std (concat sg)) t f"
proof -
  let ?thr = "np_mean (concat sg) + 3 * np_std (concat sg)"
  from assms(3) obtain t f where t: "t < length tm" and f: "f < length fr"
    and gt: "sg ! f ! t > ?thr" and d: "d = complex_detection est cls fr tm sg ?thr t f"
    using complex_scan_mem [of d "\<lambda>t f. sg ! f ! t > ?thr"
        "complex_detection est cls fr tm sg ?thr" cap "length tm" "length fr"]
    by (auto simp: complex_candidates_def Let_def)
  from f assms(1) have f': "f < length sg" by simp
  then have "sg ! f \<in> set sg" by simp
  with assms(2) t have "t < length (sg ! f)" by fastforce
  then have "sg ! f ! t \<in> set (concat sg)" by (rule cell_mem [OF f'])
  with t f gt d show ?thesis by blast
qed

lemma complex_candidates_confidence:
  assumes "length fr \<le> length sg" and "\<forall>row\<in>set sg. length tm \<le> length row"
    and "d \<in> set (complex_candidates est cls cap fr tm sg)"
  shows "np_mean (concat sg) + 3 * np_std (concat sg) < np_max (concat sg) \<and>
     0 < confidence d \<and> confidence d \<le> 1"
proof -
  let ?thr = "np_mean (concat sg) + 3 * np_std (concat sg)"
  from complex_candidate_cell [OF assms] obtain t f where
    mem: "sg ! f ! t \<in> set (concat sg)" and gt: "?thr < sg ! f ! t"
    and d: "d = complex_detection est cls fr tm sg ?thr t f" by blast
  have mx: "sg ! f ! t \<le> np_max (concat sg)" by (rule np_max_ge [OF mem])
  have c: "confidence d = min 1 ((sg ! f ! t - ?thr) / (np_max (concat sg) - ?thr))"
    by (simp add: d complex_detection_def Let_def)
  have "0 < (sg ! f ! t - ?thr) / (np_max (concat sg) - ?thr)" using gt mx by simp
  with gt mx show ?thesis unfolding c by simp
qed

lemma flat_no_complex_candidates:
  assumes "length fr \<le> length sg" and "\<forall>row\<in>set sg. length tm \<le> length row"
    and "\<forall>x\<in>set (concat sg). x = c"
  shows "complex_candidates est cls cap fr tm sg = []"
proof (rule ccontr)
  assume "complex_candidates est cls cap fr tm sg \<noteq> []"
  then obtain d where "d \<in> set (complex_candidates est cls cap fr tm sg)"
    by (meson last_in_set)
  from complex_candidate_cell [OF assms(1,2) this] obtain t f where
    mem: "sg ! f ! t \<in> set (concat sg)"
    and gt: "np_mean (concat sg) + 3 * np_std (concat sg) < sg ! f ! t" by blast
  from mem have ne: "concat sg \<noteq> []" by (metis empty_iff empty_set)
  have "np_mean (concat sg) = c" by (rule flat_mean [OF ne assms(3)])
  moreover have "np_std (concat sg) = 0" by (rule flat_std [OF ne assms(3)])
  moreover from assms(3) mem have "sg ! f ! t = c" by blast
  ultimately show False using gt by simp
qed

text \<open>Shapes of the arrays of the complex-valued path.\<close>

lemma length_fftshift: "length (fftshift xs) = length xs"
  by (simp add: fftshift_def Let_def)

lemma set_fftshift: "set (fftshift xs) = set xs"
proof -
  have "set (drop k xs) \<union> set (take k xs) = set xs" for k
    by (metis append_take_drop_id set_append sup_commute)
  then show ?thesis by (simp add: fftshift_def Let_def)
qed

lemma length_fftfreq: "length (fftfreq n d) = n"
  by (simp add: fftfreq_def)

lemma length_dft: "length (dft xs) = length xs"
  by (simp add: dft_def)

lemma length_hanning: "length (hanning M) = M"
  by (simp add: hanning_def)

lemma length_hann_periodic: "length (hann_periodic M) = M"
  by (simp add: hann_periodic_def)

lemma length_complex_times: "length (complex_times nw sr) = nw"
  by (simp add: complex_times_def)

lemma complex_spectrogram_shape:
  "length (complex_spectrogram data nw) = 4096 \<and>
   (\<forall>row\<in>set (complex_spectrogram data nw). length row = nw)"
  by (auto simp: complex_spectrogram_def)

lemma window_in_range:
  assumes "0 \<le> num_windows n" and "i < nat (num_windows n)"
  shows "i * 1024 + 4096 \<le> n"
proof -
  let ?a = "int n - 4096"
  from assms have "int i < ?a div 1024 + 1" by (simp add: num_windows_def)
  then have "int i \<le> ?a div 1024" by simp
  then have "int i * 1024 \<le> ?a div 1024 * 1024" by simp
  also have "\<dots> \<le> ?a" by (metis div_mult_mod_eq le_add_same_cancel1 pos_mod_sign zero_less_numeral)
  finally show ?thesis by linarith
qed

lemma length_frame_power:
  assumes "i * 1024 + 4096 \<le> length data"
  shows "length (frame_power data i) = 4096"
  using assms by (simp add: frame_power_def Let_def length_fftshift length_dft length_hanning)

text \<open>An all-zero buffer has an all-zero spectrogram.\<close>

lemma dft_zero:
  assumes "\<forall>x\<in>set xs. x = 0"
  shows "\<forall>y\<in>set (dft xs). y = 0"
proof -
  have "xs ! m = 0" if "m < length xs" for m using assms that nth_mem by blast
  then show ?thesis by (auto simp: dft_def)
qed

lemma frame_power_zero: "\<forall>y\<in>set (frame_power (replicate n 0) i). y = 0"
proof -
  let ?w = "map2 (\<lambda>z w. z * complex_of_real w) (take 4096 (drop (i * 1024) (replicate n 0)))
      (hanning 4096)"
  have "\<forall>x\<in>set ?w. x = 0" by (auto dest!: set_zip_leftD in_set_takeD in_set_dropD)
  then have "\<forall>y\<in>set (dft ?w). y = 0" by (rule dft_zero)
  then show ?thesis by (simp add: frame_power_def Let_def set_fftshift)
qed

lemma complex_spectrogram_zero:
  assumes "0 \<le> num_windows n"
  shows "\<forall>x\<in>set (concat (complex_spectrogram (replicate n 0) (nat (num_windows n)))). x = 0"
proof
  fix x
  assume "x \<in> set (concat (complex_spectrogram (replicate n 0) (nat (num_windows n))))"
  then obtain f i where f: "f < 4096" and i: "i < nat (num_windows n)"
    and x: "x = frame_power (replicate n 0) i ! f"
    by (auto simp: complex_spectrogram_def)
  have "i * 1024 + 4096 \<le> length (replicate n (0::complex))"
    using window_in_range [OF assms i] by simp
  then have "length (frame_power (replicate n 0) i) = 4096" by (rule length_frame_power)
  with f have "frame_power (replicate n 0) i ! f \<in> set (frame_power (replicate n 0) i)"
    by simp
  with frame_power_zero x show "x = 0" by blast
qed

lemma detect_complex_zero:
  "detect_rfi_patterns_complex_with est cls cap filt (replicate n 0) sr = filt [] \<or>
   detect_rfi_patterns_complex_with est cls cap filt (replicate n 0) sr = []"
proof (cases "sr = 0 \<or> num_windows n < 0")
  case True
  then show ?thesis by (auto simp: detect_rfi_patterns_complex_with_def)
next
  case False
  then have nw: "0 \<le> num_windows n" by simp
  let ?sg = "map (map to_db) (complex_spectrogram (replicate n 0) (nat (num_windows n)))"
  let ?fr = "fftshift (fftfreq 4096 (1 / real sr))"
  let ?tm = "complex_times (nat (num_windows n)) sr"
  have sh1: "length ?fr \<le> length ?sg"
    using complex_spectrogram_shape by (simp add: length_fftshift length_fftfreq)
  have sh2: "\<forall>row\<in>set ?sg. length ?tm \<le> length row"
    using complex_spectrogram_shape by (auto simp: length_complex_times)
  have "\<forall>x\<in>set (concat ?sg). x = to_db 0"
    using complex_spectrogram_zero [OF nw] by (auto simp: complex_spectrogram_def)
  then have "complex_candidates est cls cap ?fr ?tm ?sg = []"
    by (rule flat_no_complex_candidates [OF sh1 sh2])
  with False show ?thesis by (simp add: detect_rfi_patterns_complex_with_def Let_def)
qed

lemma segment_in_range:
  assumes "noverlap < nperseg" and "i < n_segments n nperseg noverlap"
  shows "i * (nperseg - noverlap) + nperseg \<le> n"
proof -
  let ?step = "nperseg - noverlap"
  have pos: "0 < ?step" using assms(1) by simp
  from assms(2) have "Suc i \<le> (n - noverlap) div ?step" by (simp add: n_segments_def)
  then have "Suc i * ?step \<le> n - noverlap"
    using pos by (simp add: less_eq_div_iff_mult_less_eq)
  moreover from this pos have "noverlap \<le> n" by (cases "noverlap \<le> n") auto
  ultimately show ?thesis using assms(1) by simp
qed

lemma length_segment_psd:
  assumes "0 < length seg"
  shows "length (segment_psd fs seg) = length seg div 2 + 1"
proof -
  have "length seg div 2 + 1 \<le> length seg" using assms by linarith
  then show ?thesis
    by (simp add: segment_psd_def Let_def length_dft length_hann_periodic)
qed

lemma segment_psd_zero:
  assumes "\<forall>x\<in>set seg. x = 0"
  shows "\<forall>y\<in>set (segment_psd fs seg). y = 0"
proof -
  let ?n = "length seg"
  let ?y = "map2 (\<lambda>x w. (x - sum_list seg / real ?n) * w) seg (hann_periodic ?n)"
  let ?F = "take (?n div 2 + 1) (dft (map complex_of_real ?y))"
  let ?scale = "1 / (real fs * sum_list (map (\<lambda>w. w\<^sup>2) (hann_periodic ?n)))"
  let ?S = "map (\<lambda>z. (cmod z)\<^sup>2 * ?scale) ?F"
  have "sum_list seg = 0" using assms by (simp add: sum_list_flat)
  then have "\<forall>x\<in>set ?y. x = 0" using assms by (auto dest!: set_zip_leftD)
  then have "\<forall>z\<in>set (dft (map complex_of_real ?y)). z = 0"
    by (intro dft_zero) auto
  then have "\<forall>z\<in>set ?F. z = 0" by (auto dest: in_set_takeD)
  then have S: "\<forall>s\<in>set ?S. s = 0" by auto
  have "?S ! k = 0" if "k < length ?S" for k using S that nth_mem by blast
  then have "\<forall>y\<in>set (map (\<lambda>k. if 0 < k \<and> (odd ?n \<or> k < ?n div 2) then 2 * (?S ! k) else ?S ! k)
      [0..<length ?S]). y = 0" by auto
  then show ?thesis by (simp add: segment_psd_def Let_def)
qed

lemma scipy_spectrogram_zero:
  assumes "scipy_spectrogram (replicate n 0) fs nperseg noverlap = Inr (fr, tm, sx)"
  shows "\<forall>x\<in>set (concat sx). x = 0"
proof
  fix x assume x: "x \<in> set (concat sx)"
  from assms have ok: "nperseg \<noteq> 0" "noverlap < nperseg"
    by (auto simp: scipy_spectrogram_def split: if_splits)
  let ?seg = "\<lambda>i. take nperseg (drop (i * (nperseg - noverlap)) (replicate n (0::real)))"
  from assms have sx: "sx = map (\<lambda>f. map (\<lambda>i. segment_psd fs (?seg i) ! f)
      [0..<n_segments n nperseg noverlap]) [0..<nperseg div 2 + 1]"
    by (auto simp: scipy_spectrogram_def Let_def split: if_splits)
  from x obtain f i where f: "f < nperseg div 2 + 1" and i: "i < n_segments n nperseg noverlap"
    and xe: "x = segment_psd fs (?seg i) ! f"
    unfolding sx by (auto simp del: upt_Suc)
  have "i * (nperseg - noverlap) + nperseg \<le> n" by (rule segment_in_range [OF ok(2) i])
  then have len: "length (?seg i) = nperseg" by simp
  then have "length (segment_psd fs (?seg i)) = nperseg div 2 + 1"
    using ok(1) length_segment_psd [of "?seg i" fs] by simp
  with f have "segment_psd fs (?seg i) ! f \<in> set (segment_psd fs (?seg i))" by simp
  moreover have "\<forall>y\<in>set (segment_psd fs (?seg i)). y = 0"
    by (rule segment_psd_zero) (auto dest!: in_set_takeD in_set_dropD)
  ultimately show "x = 0" using xe by blast
qed

lemma fast_zero_no_peaks:
  assumes "scipy_spectrogram (replicate n 0) fs nperseg noverlap = Inr (fr, tm, sx)"
  shows "fast_candidates fr tm (map (map (\<lambda>p. clip (to_db p) (- 100) 50)) sx) sr w = []"
proof -
  let ?sg = "map (map (\<lambda>p. clip (to_db p) (- 100) 50)) sx"
  have "\<forall>x\<in>set (concat ?sg). x = clip (to_db 0) (- 100) 50"
    using scipy_spectrogram_zero [OF assms] by auto
  then have "peak_indices ?sg (np_median (concat ?sg) + 2 * np_std (concat ?sg)) = []"
    by (rule flat_no_peaks)
  then show ?thesis by (simp add: fast_candidates_def Let_def)
qed

lemma to_db_zero: "to_db 0 = - 100"
proof -
  have "log 10 ((10::real) ^ 10) = real 10" by (rule log_pow_cancel) simp_all
  then have "log 10 (10000000000::real) = 10" by simp
  then show ?thesis by (simp add: to_db_def log_divide)
qed

lemma detect_fast_zero:
  assumes "filt [] = []"
  shows "detect_rfi_patterns_fast_with filt (replicate n 0) sr = []"
proof (cases "scipy_spectrogram (replicate n 0) sr (min 2048 (n div 4)) (min 2048 (n div 4) div 4)")
  case (Inl e)
  then show ?thesis by (simp add: detect_rfi_patterns_fast_with_def Let_def)
next
  case (Inr res)
  obtain fr tm sx where res: "res = (fr, tm, sx)" by (cases res)
  have "fast_candidates fr tm (map (map (\<lambda>p. clip (to_db p) (- 100) 50)) sx) sr
      (min 2048 (n div 4)) = []"
    by (rule fast_zero_no_peaks) (use Inr res in simp)
  then show ?thesis
    using Inr res assms by (simp add: detect_rfi_patterns_fast_with_def Let_def limit_detections_def)
qed

lemma concat_replicate_single: "concat (replicate n [x]) = replicate n x"
  by (induction n) simp_all

lemma filter_prefix_count:
  assumes "\<forall>f<a. Q f"
  shows "a \<le> length (filter Q [0..<a + b])"
proof -
  have "[0..<a + b] = [0..<a] @ [a..<a + b]" using upt_add_eq_append [of 0 a b] by simp
  moreover have "filter Q [0..<a] = [0..<a]" using assms by (simp add: filter_id_conv)
  ultimately show ?thesis by simp
qed

lemma wideband_cells: "concat wideband_frame = replicate 250 100 @ replicate 3846 0"
  by (simp add: wideband_frame_def concat_replicate_single)

lemma wideband_mean: "np_mean (concat wideband_frame) = 25000 / 4096"
  by (simp add: wideband_cells np_mean_def sum_list_replicate)

lemma wideband_std: "np_std (concat wideband_frame) < 31"
proof -
  have "np_mean (map (\<lambda>x. (x - 25000 / 4096)\<^sup>2) (concat wideband_frame)) =
      (250 * (100 - 25000 / 4096)\<^sup>2 + 3846 * (25000 / 4096)\<^sup>2) / 4096"
    by (simp add: wideband_cells np_mean_def sum_list_replicate)
  also have "\<dots> < 31\<^sup>2" by (simp add: power2_eq_square)
  finally have "np_mean (map (\<lambda>x. (x - 25000 / 4096)\<^sup>2) (concat wideband_frame)) < 31\<^sup>2" .
  then have "sqrt (np_mean (map (\<lambda>x. (x - 25000 / 4096)\<^sup>2) (concat wideband_frame))) < 31"
    by (intro real_less_lsqrt) simp_all
  then show ?thesis by (simp add: np_std_def wideband_mean)
qed

lemma wideband_threshold:
  "np_mean (concat wideband_frame) + 3 * np_std (concat wideband_frame) < 100"
  using wideband_std by (simp add: wideband_mean)

lemma wideband_above:
  assumes "f < 250"
  shows "np_mean (concat wideband_frame) + 3 * np_std (concat wideband_frame)
     < wideband_frame ! f ! 0"
proof -
  have "wideband_frame ! f = [100]" using assms by (simp add: wideband_frame_def nth_append)
  then show ?thesis using wideband_threshold by simp
qed

text \<open>
  Claim C2. The scan of \<^verbatim>\<open>src/SDRSCI/services/rfi_detector.py\<close> emits the cells above
  the threshold in scan order (frame by frame, bin by bin inside a frame) and keeps the
  first of them, but the test \<^verbatim>\<open>detection_count > 200\<close> after the increment lets 201
  candidates through, not 200. For one frame in which 250 of the 4096 bins hold 100 dB
  and the others 0 dB, the threshold is below 100 dB and the scan returns 201 candidates.
\<close>

theorem capped_scan_emits_201:
  "length (complex_scan P mk (Some 200) nt nf) =
     min 201 (length (filter (\<lambda>(t, f). P t f) (List.product [0..<nt] [0..<nf]))) \<and>
   length (complex_candidates services_estimate_bandwidth services_classify_interference
     (Some 200) (fftshift (fftfreq 4096 (1 / 2048000))) (complex_times 1 2048000) wideband_frame)
     = 201"
proof -
  let ?thr = "np_mean (concat wideband_frame) + 3 * np_std (concat wideband_frame)"
  let ?Q = "\<lambda>f. ?thr < wideband_frame ! f ! 0"
  have "250 \<le> length (filter ?Q [0..<250 + 3846])"
    by (rule filter_prefix_count) (use wideband_above in blast)
  then have many: "250 \<le> length (filter ?Q [0..<4096])" by simp
  have prod: "List.product [0..<1] [0..<4096] = map (Pair 0) [0..<4096]"
    by (simp del: upt_rec_numeral)
  have "filter (\<lambda>(t, f). ?thr < wideband_frame ! f ! t) (map (Pair 0) [0..<4096])
      = map (Pair 0) (filter ?Q [0..<4096])"
    by (simp add: filter_map comp_def del: upt_rec_numeral)
  then have "250 \<le> length (filter (\<lambda>(t, f). ?thr < wideband_frame ! f ! t)
      (List.product [0..<1] [0..<4096]))"
    using many unfolding prod by simp
  then have "length (complex_candidates services_estimate_bandwidth
     services_classify_interference (Some 200) (fftshift (fftfreq 4096 (1 / 2048000)))
     (complex_times 1 2048000) wideband_frame) = 201"
    by (simp add: complex_candidates_def Let_def complex_scan_count length_fftshift
        length_fftfreq length_complex_times del: upt_rec_numeral)
  then show ?thesis using complex_scan_count by blast
qed

lemma length_accept_loop: "length (accept_loop tt ft cap [] xs) \<le> length xs"
proof -
  obtain ys where "accept_loop tt ft cap [] xs = [] @ ys" "subseq ys xs"
    using accept_loop_extends by blast
  then show ?thesis using list_emb_length by fastforce
qed

lemma length_limit_detections: "length (limit_detections ds) \<le> 100"
  by (simp add: limit_detections_def)

lemma services_filter_is_take:
  "services_filter_nearby_detections ds = take 50 (filter_nearby_detections (1 / 10) 1000 ds)"
  by (simp add: services_filter_nearby_detections_def filter_nearby_detections_def capped_is_take)

lemma length_default_filter: "length (filter_nearby_detections_default ds) \<le> length ds"
  using length_accept_loop [of "1 / 10" 10000 None "sort_by_power ds"]
  by (simp add: filter_nearby_detections_default_def filter_nearby_detections_def
      sort_by_power_def)

lemma fast_with_shape:
  "\<exists>raw. length raw \<le> 100 \<and> (detect_rfi_patterns_fast_with filt audio sr = filt raw \<or>
      detect_rfi_patterns_fast_with filt audio sr = [])"
proof (cases "scipy_spectrogram audio sr (min 2048 (length audio div 4))
    (min 2048 (length audio div 4) div 4)")
  case (Inl e)
  then show ?thesis
    by (auto simp: detect_rfi_patterns_fast_with_def Let_def intro: exI [of _ "[]"])
next
  case (Inr res)
  obtain fr tm sx where "res = (fr, tm, sx)" by (cases res)
  with Inr show ?thesis
    using length_limit_detections
    by (auto simp: detect_rfi_patterns_fast_with_def Let_def)
qed

text \<open>
  Claim C4, as amended. In both files the real-valued path hands at most 100 detections
  to the deduplication: the candidates themselves when there are at most 100, otherwise
  the first 100 of their stable sort by descending power, which is a rearrangement of the
  candidates. The deduplication of \<^verbatim>\<open>src/SDRSCI/services/rfi_detector.py\<close> returns the
  first 50 accepted detections, so that path returns at most 50. The deduplication of
  \<^verbatim>\<open>src/rfi_detector.py\<close> has no cap, and the same path there returns at most 100.
\<close>

theorem fast_path_caps:
  "length (limit_detections ds) \<le> 100 \<and>
   (limit_detections ds = ds \<and> length ds \<le> 100 \<or>
    limit_detections ds = take 100 (sort_by_power ds) \<and> 100 < length ds) \<and>
   sorted_wrt (\<lambda>a b. power_level b \<le> power_level a) (sort_by_power ds) \<and>
   set (sort_by_power ds) = set ds \<and> length (sort_by_power ds) = length ds \<and>
   services_filter_nearby_detections ds = take 50 (filter_nearby_detections (1 / 10) 1000 ds) \<and>
   length (services_filter_nearby_detections ds) \<le> 50 \<and>
   (\<exists>raw. length raw \<le> 100 \<and>
      services_detect_rfi_patterns_fast audio sr = services_filter_nearby_detections raw) \<and>
   length (services_detect_rfi_patterns_fast audio sr) \<le> 50 \<and>
   length (detect_rfi_patterns_fast audio sr) \<le> 100"
proof -
  have a: "length (limit_detections ds) \<le> 100" by (rule length_limit_detections)
  have b: "limit_detections ds = ds \<and> length ds \<le> 100 \<or>
    limit_detections ds = take 100 (sort_by_power ds) \<and> 100 < length ds"
    by (simp add: limit_detections_def)
  have c: "sorted_wrt (\<lambda>a b. power_level b \<le> power_level a) (sort_by_power ds)"
    using sorted_sort_by_power desc_iff by blast
  have d: "set (sort_by_power ds) = set ds \<and> length (sort_by_power ds) = length ds"
    by (simp add: sort_by_power_def)
  have e: "services_filter_nearby_detections ds =
      take 50 (filter_nearby_detections (1 / 10) 1000 ds)"
    by (rule services_filter_is_take)
  have f: "length (services_filter_nearby_detections xs) \<le> 50" for xs
    by (simp add: services_filter_is_take)
  obtain raw where raw: "length raw \<le> 100"
    "services_detect_rfi_patterns_fast audio sr = services_filter_nearby_detections raw \<or>
     services_detect_rfi_patterns_fast audio sr = []"
    using fast_with_shape [of services_filter_nearby_detections audio sr]
    by (auto simp: services_detect_rfi_patterns_fast_def)
  have g: "\<exists>raw. length raw \<le> 100 \<and>
      services_detect_rfi_patterns_fast audio sr = services_filter_nearby_detections raw"
  proof (cases "services_detect_rfi_patterns_fast audio sr = []")
    case True
    then have "services_detect_rfi_patterns_fast audio sr = services_filter_nearby_detections []"
      by (simp add: services_filter_nearby_detections_def)
    then show ?thesis by (intro exI [of _ "[]"]) simp
  next
    case False
    with raw show ?thesis by blast
  qed
  have h: "length (services_detect_rfi_patterns_fast audio sr) \<le> 50"
    using g f by auto
  obtain raw' where raw': "length raw' \<le> 100"
    "detect_rfi_patterns_fast audio sr = filter_nearby_detections_default raw' \<or>
     detect_rfi_patterns_fast audio sr = []"
    using fast_with_shape [of filter_nearby_detections_default audio sr]
    by (auto simp: detect_rfi_patterns_fast_def)
  have i: "length (detect_rfi_patterns_fast audio sr) \<le> 100"
    using raw' length_default_filter [of raw'] by auto
  from a b c d e f g h i show ?thesis by blast
qed

lemma spaced_survive:
  "filter_nearby_detections_default (map (\<lambda>k. det (real k) f p) [0..<n]) =
     map (\<lambda>k. det (real k) f p) [0..<n]"
proof -
  let ?ds = "map (\<lambda>k. det (real k) f p) [0..<n]"
  have "sorted (map (\<lambda>d. - power_level d) ?ds)"
    by (simp add: comp_def det_def sorted_wrt_map sorted_map)
  then have srt: "sort_by_power ?ds = ?ds" by (rule sort_by_power_id)
  have far: "\<not> too_close (1 / 10) 10000 (det (real b) f p) (det (real a) f p)" if "a < b" for a b
    using that by (simp add: too_close_def det_def)
  have "sorted_wrt (<) [0..<n]" by (rule sorted_wrt_upt)
  then have "sorted_wrt (\<lambda>a b. \<not> too_close (1 / 10) 10000 (det (real b) f p) (det (real a) f p))
      [0..<n]"
    by (rule sorted_wrt_mono_rel [rotated]) (use far in blast)
  then have "sorted_wrt (\<lambda>e d. \<not> too_close (1 / 10) 10000 d e) ([] @ ?ds)"
    by (simp add: sorted_wrt_map)
  then have "accept_loop (1 / 10) 10000 None [] ?ds = [] @ ?ds"
    by (rule accept_loop_fixpoint)
  then show ?thesis
    by (simp add: filter_nearby_detections_default_def filter_nearby_detections_def srt)
qed

text \<open>
  Claim C4 as stated fails on \<^verbatim>\<open>src/rfi_detector.py\<close>: the two steps that end its
  real-valued path, the limit to 100 and the deduplication without a cap, return all of
  sixty detections that are one second apart, more than 50.
\<close>

theorem uncapped_real_path_keeps_60:
  "length spaced_detections = 60 \<and>
   limit_detections spaced_detections = spaced_detections \<and>
   filter_nearby_detections_default (limit_detections spaced_detections) = spaced_detections \<and>
   length (filter_nearby_detections_default (limit_detections spaced_detections)) = 60"
proof -
  have l: "length spaced_detections = 60" by (simp add: spaced_detections_def)
  then have lim: "limit_detections spaced_detections = spaced_detections"
    by (simp add: limit_detections_def)
  have "filter_nearby_detections_default spaced_detections = spaced_detections"
    unfolding spaced_detections_def by (rule spaced_survive)
  with l lim show ?thesis by simp
qed

section \<open>Deduplication thresholds by file\<close>

lemma complex_with_shape:
  "\<exists>raw. detect_rfi_patterns_complex_with est cls cap filt data sr = filt raw \<or>
      detect_rfi_patterns_complex_with est cls cap filt data sr = []"
  by (auto simp: detect_rfi_patterns_complex_with_def Let_def)

lemma paths_call_services_filter:
  "(\<exists>raw. services_detect_rfi_patterns_fast audio sr = services_filter_nearby_detections raw) \<and>
   (\<exists>raw. services_detect_rfi_patterns_complex data sr = services_filter_nearby_detections raw)"
proof -
  have nil: "services_filter_nearby_detections [] = []"
    by (simp add: services_filter_nearby_detections_def)
  have "\<exists>raw. services_detect_rfi_patterns_fast audio sr = services_filter_nearby_detections raw"
    using fast_with_shape [of services_filter_nearby_detections audio sr] nil
    unfolding services_detect_rfi_patterns_fast_def by metis
  moreover have
    "\<exists>raw. services_detect_rfi_patterns_complex data sr = services_filter_nearby_detections raw"
    using complex_with_shape [of services_estimate_bandwidth services_classify_interference
        "Some 200" services_filter_nearby_detections data sr] nil
    unfolding services_detect_rfi_patterns_complex_def by metis
  ultimately show ?thesis by blast
qed

lemma paths_call_default_filter:
  "(\<exists>raw. detect_rfi_patterns_fast audio sr = filter_nearby_detections_default raw) \<and>
   (\<exists>raw. detect_rfi_patterns_complex data sr = filter_nearby_detections_default raw)"
proof -
  have nil: "filter_nearby_detections_default [] = []"
    by (simp add: filter_nearby_detections_default_def filter_nearby_detections_def)
  have "\<exists>raw. detect_rfi_patterns_fast audio sr = filter_nearby_detections_default raw"
    using fast_with_shape [of filter_nearby_detections_default audio sr] nil
    unfolding detect_rfi_patterns_fast_def by metis
  moreover have
    "\<exists>raw. detect_rfi_patterns_complex data sr = filter_nearby_detections_default raw"
    using complex_with_shape [of estimate_bandwidth classify_interference
        None filter_nearby_detections_default data sr] nil
    unfolding detect_rfi_patterns_complex_def by metis
  ultimately show ?thesis by blast
qed

text \<open>
  Claim C3, as amended. The deduplicated output never holds two detections that are
  within 0.1 s in timestamp and within the frequency threshold of the file's function at
  once: 1000 Hz for \<^verbatim>\<open>_filter_nearby_detections\<close> of
  \<^verbatim>\<open>src/SDRSCI/services/rfi_detector.py\<close>, 10000 Hz, the default, for that of
  \<^verbatim>\<open>src/rfi_detector.py\<close>. The threshold goes with the file, not with the path: what
  either detection path of a file returns is an output of that file's function.
  Acceptance is greedy in order of descending power level with ties in original order:
  the output is a subsequence of the stable descending sort of the input, and every input
  detection that is left out is within both thresholds of an accepted detection of at
  least its power (for the capped function, as long as the cap of 50 was not reached).
\<close>

theorem dedupe_keeps_no_close_pair:
  "(\<forall>i j. i < j \<and> j < length (filter_nearby_detections_default ds) \<longrightarrow>
      \<not> too_close (1 / 10) 10000 (filter_nearby_detections_default ds ! i)
           (filter_nearby_detections_default ds ! j)) \<and>
   subseq (filter_nearby_detections_default ds) (sort_by_power ds) \<and>
   (\<forall>d\<in>set ds. d \<in> set (filter_nearby_detections_default ds) \<or>
      (\<exists>e\<in>set (filter_nearby_detections_default ds).
         too_close (1 / 10) 10000 d e \<and> power_level d \<le> power_level e)) \<and>
   (\<forall>i j. i < j \<and> j < length (services_filter_nearby_detections ds) \<longrightarrow>
      \<not> too_close (1 / 10) 1000 (services_filter_nearby_detections ds ! i)
           (services_filter_nearby_detections ds ! j)) \<and>
   subseq (services_filter_nearby_detections ds) (sort_by_power ds) \<and>
   (length (services_filter_nearby_detections ds) < 50 \<longrightarrow>
     (\<forall>d\<in>set ds. d \<in> set (services_filter_nearby_detections ds) \<or>
        (\<exists>e\<in>set (services_filter_nearby_detections ds).
           too_close (1 / 10) 1000 d e \<and> power_level d \<le> power_level e))) \<and>
   (\<exists>raw. services_detect_rfi_patterns_fast audio sr = services_filter_nearby_detections raw) \<and>
   (\<exists>raw. services_detect_rfi_patterns_complex data sr = services_filter_nearby_detections raw) \<and>
   (\<exists>raw. detect_rfi_patterns_fast audio sr = filter_nearby_detections_default raw) \<and>
   (\<exists>raw. detect_rfi_patterns_complex data sr = filter_nearby_detections_default raw)"
proof -
  have core: "(\<forall>i j. i < j \<and> j < length (filter_nearby_detections_default ds) \<longrightarrow>
        \<not> too_close (1 / 10) 10000 (filter_nearby_detections_default ds ! i)
             (filter_nearby_detections_default ds ! j)) \<and>
     subseq (filter_nearby_detections_default ds) (sort_by_power ds) \<and>
     (\<forall>d\<in>set ds. d \<in> set (filter_nearby_detections_default ds) \<or>
        (\<exists>e\<in>set (filter_nearby_detections_default ds).
           too_close (1 / 10) 10000 d e \<and> power_level d \<le> power_level e)) \<and>
     (\<forall>i j. i < j \<and> j < length (services_filter_nearby_detections ds) \<longrightarrow>
        \<not> too_close (1 / 10) 1000 (services_filter_nearby_detections ds ! i)
             (services_filter_nearby_detections ds ! j)) \<and>
     subseq (services_filter_nearby_detections ds) (sort_by_power ds) \<and>
     (length (services_filter_nearby_detections ds) < 50 \<longrightarrow>
       (\<forall>d\<in>set ds. d \<in> set (services_filter_nearby_detections ds) \<or>
          (\<exists>e\<in>set (services_filter_nearby_detections ds).
             too_close (1 / 10) 1000 d e \<and> power_level d \<le> power_level e)))"
  proof (cases "ds = []")
    case True
    then show ?thesis
      by (simp add: filter_nearby_detections_default_def filter_nearby_detections_def
          services_filter_nearby_detections_def)
  next
    case False
    let ?u = "\<lambda>ft. accept_loop (1 / 10) ft None [] (sort_by_power ds)"
    have f: "filter_nearby_detections_default ds = ?u 10000"
      using False by (simp add: filter_nearby_detections_default_def filter_nearby_detections_def)
    have g: "services_filter_nearby_detections ds = take 50 (?u 1000)"
      using False by (simp add: services_filter_nearby_detections_def capped_is_take)
    have a1: "\<forall>i j. i < j \<and> j < length (?u 10000) \<longrightarrow>
        \<not> too_close (1 / 10) 10000 (?u 10000 ! i) (?u 10000 ! j)"
      using separated_nth [OF uncapped_separated] by blast
    have a2: "subseq (?u 10000) (sort_by_power ds)" by (rule uncapped_subseq)
    have a3: "\<forall>d\<in>set ds. d \<in> set (?u 10000) \<or>
        (\<exists>e\<in>set (?u 10000). too_close (1 / 10) 10000 d e \<and> power_level d \<le> power_level e)"
      using uncapped_dominated by blast
    have "sorted_wrt (\<lambda>e d. \<not> too_close (1 / 10) 1000 d e) (take 50 (?u 1000))"
      by (rule sorted_wrt_take [OF uncapped_separated])
    then have b1: "\<forall>i j. i < j \<and> j < length (take 50 (?u 1000)) \<longrightarrow>
        \<not> too_close (1 / 10) 1000 (take 50 (?u 1000) ! i) (take 50 (?u 1000) ! j)"
      using separated_nth by blast
    have "subseq (take 50 (?u 1000)) (?u 1000)"
      by (metis append_take_drop_id list_emb_append_mono list_emb_Nil subseq_order.order_refl
          append_Nil2)
    then have b2: "subseq (take 50 (?u 1000)) (sort_by_power ds)"
      using uncapped_subseq subseq_order.order_trans by blast
    have b3: "length (take 50 (?u 1000)) < 50 \<longrightarrow>
       (\<forall>d\<in>set ds. d \<in> set (take 50 (?u 1000)) \<or>
          (\<exists>e\<in>set (take 50 (?u 1000)).
             too_close (1 / 10) 1000 d e \<and> power_level d \<le> power_level e))"
    proof
      assume "length (take 50 (?u 1000)) < 50"
      then have "take 50 (?u 1000) = ?u 1000" by simp
      then show "\<forall>d\<in>set ds. d \<in> set (take 50 (?u 1000)) \<or>
          (\<exists>e\<in>set (take 50 (?u 1000)).
             too_close (1 / 10) 1000 d e \<and> power_level d \<le> power_level e)"
        using uncapped_dominated [of _ ds "1 / 10" 1000] by simp
    qed
    from a1 a2 a3 b1 b2 b3 show ?thesis unfolding f g by blast
  qed
  from core paths_call_services_filter [of audio sr data]
    paths_call_default_filter [of audio sr data]
  show ?thesis by blast
qed

theorem dedupe_keeps_no_close_pair_witness:
  "(0::nat) < 1 \<and> 1 < length (services_filter_nearby_detections
       [det 0 100 (-30), det 0 200 (-10), det 5 100 (-20)]) \<and>
   \<not> too_close (1 / 10) 1000
       (services_filter_nearby_detections [det 0 100 (-30), det 0 200 (-10), det 5 100 (-20)] ! 0)
       (services_filter_nearby_detections [det 0 100 (-30), det 0 200 (-10), det 5 100 (-20)] ! 1) \<and>
   length (services_filter_nearby_detections
       [det 0 100 (-30), det 0 200 (-10), det 5 100 (-20)]) < 50 \<and>
   det 0 100 (-30) \<in> set [det 0 100 (-30), det 0 200 (-10), det 5 100 (-20)] \<and>
   det 0 100 (-30) \<notin> set (services_filter_nearby_detections
       [det 0 100 (-30), det 0 200 (-10), det 5 100 (-20)]) \<and>
   (\<exists>e\<in>set (services_filter_nearby_detections
       [det 0 100 (-30), det 0 200 (-10), det 5 100 (-20)]).
      too_close (1 / 10) 1000 (det 0 100 (-30)) e \<and> power_level (det 0 100 (-30)) \<le> power_level e)"
  using dedupe_keeps_no_close_pair [of "[det 0 100 (-30), det 0 200 (-10), det 5 100 (-20)]"]
  by (simp add: services_filter_nearby_detections_def sort_by_power_def det_def too_close_def)

text \<open>
  Claim C3 as stated fails on the complex-valued path of
  \<^verbatim>\<open>src/SDRSCI/services/rfi_detector.py\<close>, which calls the function with 1000 Hz: two
  detections of one frame that are 5000 Hz apart are both kept, although they are within
  0.1 s and within 10000 Hz of each other.
\<close>

theorem services_dedupe_keeps_pair_within_10000:
  "services_filter_nearby_detections [det 0 0 (- 10), det 0 5000 (- 20)] =
     [det 0 0 (- 10), det 0 5000 (- 20)] \<and>
   too_close (1 / 10) 10000 (det 0 0 (- 10)) (det 0 5000 (- 20))"
  by (simp add: services_filter_nearby_detections_def sort_by_power_def det_def too_close_def)

section \<open>Frames and time axes\<close>

lemma num_windows_floor: "num_windows n = \<lfloor>(real n - 4096) / 1024\<rfloor> + 1"
proof -
  have "\<lfloor>real_of_int (int n - 4096) / real_of_int 1024\<rfloor> = (int n - 4096) div 1024"
    by (rule floor_divide_of_int_eq)
  then show ?thesis by (simp add: num_windows_def)
qed

lemma complex_times_nth: "i < nw \<Longrightarrow> complex_times nw sr ! i = real i * 1024 / real sr"
  by (simp add: complex_times_def)

lemma n_segments_step:
  assumes "h < w" and "w \<le> n"
  shows "n_segments n w h = (n - w) div (w - h) + 1"
proof -
  have split: "n - h = (n - w) + (w - h)" using assms by arith
  have "(n - h) div (w - h) = (n - w) div (w - h) + 1"
    unfolding split using assms(1) by (intro div_add_self2) simp
  then show ?thesis by (simp add: n_segments_def)
qed

lemma scipy_spectrogram_parts:
  assumes "scipy_spectrogram x fs nperseg noverlap = Inr (fr, tm, sx)"
  shows "tm = segment_times (length x) fs nperseg noverlap \<and>
    length sx = nperseg div 2 + 1 \<and>
    (\<forall>row\<in>set sx. length row = n_segments (length x) nperseg noverlap) \<and>
    0 < nperseg \<and> noverlap < nperseg \<and> nperseg \<le> length x \<and> 0 < fs"
  using assms by (auto simp: scipy_spectrogram_def Let_def split: if_splits)

lemma length_segment_times:
  "length (segment_times n fs nperseg noverlap) = n_segments n nperseg noverlap"
  by (simp add: segment_times_def)

lemma segment_times_nth:
  "i < n_segments n nperseg noverlap \<Longrightarrow>
   segment_times n fs nperseg noverlap ! i =
     (real nperseg / 2 + real i * real (nperseg - noverlap)) / real fs"
  by (simp add: segment_times_def)

lemma scipy_spectrogram_ok:
  assumes "0 < nperseg" and "noverlap < nperseg" and "nperseg \<le> length x" and "0 < fs"
  shows "\<exists>fr sx. scipy_spectrogram x fs nperseg noverlap =
     Inr (fr, segment_times (length x) fs nperseg noverlap, sx)"
  using assms by (simp add: scipy_spectrogram_def Let_def)

text \<open>
  Claim C5, as amended. Complex-valued path: the number of frames is
  \<open>\<lfloor>(N - 4096) / 1024\<rfloor> + 1\<close> with hop 1024 = 4096 / 4, the spectrogram has 4096 rows
  with one column per frame, and \<open>times[i] = i \<cdot> 1024 / sample_rate\<close>. Real-valued path:
  the window is \<open>min(2048, N div 4)\<close>; the library cuts the buffer into frames whose
  starts are a fixed step apart, the window less the overlap it is given, whatever that
  overlap is; the number of frames is \<open>(N - window) div step + 1\<close>, and the time axis
  holds the centres of the frames, \<open>times[i] = (window / 2 + i \<cdot> step) / sample_rate\<close>,
  not their starts.
\<close>

theorem frame_count_and_time_axis:
  "num_windows n = \<lfloor>(real n - 4096) / 1024\<rfloor> + 1 \<and> (1024::nat) = 4096 div 4 \<and>
   length (complex_spectrogram data nw) = 4096 \<and>
   (\<forall>row\<in>set (complex_spectrogram data nw). length row = nw) \<and>
   length (complex_times nw sr) = nw \<and>
   (\<forall>i<nw. complex_times nw sr ! i = real i * 1024 / real sr) \<and>
   (scipy_spectrogram x fs (min 2048 (length x div 4)) noverlap = Inr (fr, tm, sx) \<longrightarrow>
    length tm = (length x - min 2048 (length x div 4))
        div (min 2048 (length x div 4) - noverlap) + 1 \<and>
    (\<forall>row\<in>set sx. length row = length tm) \<and>
    (\<forall>i<length tm. tm ! i =
       (real (min 2048 (length x div 4)) / 2 +
        real i * real (min 2048 (length x div 4) - noverlap)) / real fs))"
proof -
  define w where "w = min 2048 (length x div 4)"
  have real_path: "length tm = (length x - w) div (w - noverlap) + 1 \<and>
    (\<forall>row\<in>set sx. length row = length tm) \<and>
    (\<forall>i<length tm. tm ! i = (real w / 2 + real i * real (w - noverlap)) / real fs)"
    if eq: "scipy_spectrogram x fs w noverlap = Inr (fr, tm, sx)"
  proof -
    note p = scipy_spectrogram_parts [OF eq]
    from p have tm: "tm = segment_times (length x) fs w noverlap" by blast
    from p have w: "noverlap < w" "w \<le> length x" by blast+
    have len: "length tm = n_segments (length x) w noverlap"
      unfolding tm by (rule length_segment_times)
    have cnt: "n_segments (length x) w noverlap = (length x - w) div (w - noverlap) + 1"
      by (rule n_segments_step [OF w])
    from p have rows: "\<forall>row\<in>set sx. length row = length tm" unfolding len by blast
    have nth: "\<forall>i<length tm. tm ! i = (real w / 2 + real i * real (w - noverlap)) / real fs"
      unfolding len unfolding tm using segment_times_nth by blast
    from len cnt rows nth show ?thesis by metis
  qed
  have a: "num_windows n = \<lfloor>(real n - 4096) / 1024\<rfloor> + 1" by (rule num_windows_floor)
  have b: "(1024::nat) = 4096 div 4" by simp
  have c: "length (complex_spectrogram data nw) = 4096 \<and>
     (\<forall>row\<in>set (complex_spectrogram data nw). length row = nw)"
    by (rule complex_spectrogram_shape)
  have d: "length (complex_times nw sr) = nw" by (rule length_complex_times)
  have e: "\<forall>i<nw. complex_times nw sr ! i = real i * 1024 / real sr"
    using complex_times_nth by blast
  from a b c d e real_path show ?thesis unfolding w_def by blast
qed

theorem frame_count_and_time_axis_witness:
  "map_sum id (\<lambda>r. length (fst (snd r))) (scipy_spectrogram (replicate 16 0) 8000 4 3) = Inr 13 \<and>
   (16 - 4) div (4 - 3) + 1 = (13::nat) \<and>
   map_sum id (\<lambda>r. fst (snd r) ! 2) (scipy_spectrogram (replicate 16 0) 8000 4 3)
     = Inr ((4 / 2 + 2 * 1) / 8000) \<and>
   (3::nat) < 7 \<and> complex_times 7 2048000 ! 3 = 3 * 1024 / 2048000 \<and>
   num_windows 10000 = 6"
proof -
  obtain fr sx where eq: "scipy_spectrogram (replicate 16 0) 8000 4 3 =
      Inr (fr, segment_times 16 8000 4 3, sx)"
    using scipy_spectrogram_ok [of 4 3 "replicate 16 0" 8000] by auto
  have w: "min 2048 (length (replicate 16 (0::real)) div 4) = 4" by simp
  note inst = frame_count_and_time_axis [where n = 10000 and data = "[]" and nw = 7
      and sr = 2048000 and x = "replicate 16 0" and fs = 8000 and noverlap = 3 and fr = fr
      and tm = "segment_times 16 8000 4 3" and sx = sx, unfolded w]
  from inst eq have l: "length (segment_times 16 8000 4 3) = 13" by simp
  from inst eq have nthall: "\<forall>i<length (segment_times 16 8000 4 3).
      segment_times 16 8000 4 3 ! i = (real 4 / 2 + real i * real (4 - 3)) / real 8000"
    by blast
  have "(2::nat) < length (segment_times 16 8000 4 3)" unfolding l by simp
  with nthall have "segment_times 16 8000 4 3 ! 2 = (real 4 / 2 + real 2 * real (4 - 3)) / real 8000"
    by blast
  then have t: "segment_times 16 8000 4 3 ! 2 = (4 / 2 + 2 * 1) / 8000" by simp
  from inst have c: "complex_times 7 2048000 ! 3 = 3 * 1024 / 2048000" by simp
  have "num_windows 10000 = 6" by (simp add: num_windows_def)
  with l t c show ?thesis unfolding eq by simp
qed

text \<open>
  Claim C5 as stated fails on the real-valued path: for a buffer of 16384 samples at
  48000 Hz the window is 2048 and the call of \<^verbatim>\<open>_detect_rfi_patterns_fast\<close> gives the
  library the quarter of the window, 512, as overlap; the spectrogram has 10 frames,
  where \<open>(N - window) div hop + 1\<close> with hop 512 is 29, and its first time is 8/375 s,
  the centre of the first frame, where \<open>0 \<cdot> hop / sample_rate\<close> is 0.
\<close>

theorem real_path_frame_count_differs:
  "map_sum id (\<lambda>r. length (fst (snd r)))
     (scipy_spectrogram (replicate 16384 0) 48000 (min 2048 (16384 div 4))
        (min 2048 (16384 div 4) div 4)) = Inr 10 \<and>
   (16384 - min 2048 (16384 div 4)) div (min 2048 (16384 div 4) div 4) + 1 = (29::nat) \<and>
   map_sum id (\<lambda>r. fst (snd r) ! 0)
     (scipy_spectrogram (replicate 16384 0) 48000 (min 2048 (16384 div 4))
        (min 2048 (16384 div 4) div 4)) = Inr (8 / 375) \<and>
   (0::real) * real (min 2048 (16384 div 4) div 4) / 48000 = 0"
proof -
  have w: "min 2048 ((16384::nat) div 4) = 2048" "(2048::nat) div 4 = 512" by simp_all
  obtain fr sx where eq: "scipy_spectrogram (replicate 16384 0) 48000 2048 512 =
      Inr (fr, segment_times 16384 48000 2048 512, sx)"
    using scipy_spectrogram_ok [of 2048 512 "replicate 16384 0" 48000] by auto
  have n: "n_segments 16384 2048 512 = 10" by (simp add: n_segments_def)
  have l: "length (segment_times 16384 48000 2048 512) = 10"
    unfolding length_segment_times by (rule n)
  have "(0::nat) < n_segments 16384 2048 512" unfolding n by simp
  then have "segment_times 16384 48000 2048 512 ! 0 =
      (real 2048 / 2 + real 0 * real (2048 - 512)) / real 48000"
    by (rule segment_times_nth)
  then have z: "segment_times 16384 48000 2048 512 ! 0 = 8 / 375" by simp
  have c: "(16384 - 2048) div 512 + 1 = (29::nat)" by simp
  show ?thesis unfolding w eq using l z c by simp
qed

section \<open>Zero buffers and confidence\<close>

lemma complex_zero_no_candidates:
  assumes "0 \<le> num_windows n"
  shows "complex_candidates est cls cap (fftshift (fftfreq 4096 d))
     (complex_times (nat (num_windows n)) sr)
     (map (map to_db) (complex_spectrogram (replicate n 0) (nat (num_windows n)))) = []"
proof -
  let ?sg = "map (map to_db) (complex_spectrogram (replicate n 0) (nat (num_windows n)))"
  let ?fr = "fftshift (fftfreq 4096 d)"
  let ?tm = "complex_times (nat (num_windows n)) sr"
  have sh1: "length ?fr \<le> length ?sg"
    using complex_spectrogram_shape by (simp add: length_fftshift length_fftfreq)
  have sh2: "\<forall>row\<in>set ?sg. length ?tm \<le> length row"
    using complex_spectrogram_shape by (auto simp: length_complex_times)
  have "\<forall>x\<in>set (concat ?sg). x = to_db 0"
    using complex_spectrogram_zero [OF assms] by (auto simp: complex_spectrogram_def)
  then show ?thesis by (rule flat_no_complex_candidates [OF sh1 sh2])
qed

lemma services_filter_Nil: "services_filter_nearby_detections [] = []"
  by (simp add: services_filter_nearby_detections_def)

lemma default_filter_Nil: "filter_nearby_detections_default [] = []"
  by (simp add: filter_nearby_detections_default_def filter_nearby_detections_def)

text \<open>
  Claim C6. For a buffer of zero samples both detection paths, in both files, return the
  empty list. The spectrogram of such a buffer is zero in every cell, so the dB
  spectrogram is constant (\<open>10 \<cdot> log\<^sub>1\<^sub>0 (10\<^sup>-\<^sup>1\<^sup>0) = -100\<close>), its deviation is zero and the
  strict test \<^verbatim>\<open>power > threshold\<close> holds in no cell: the list of candidates is already
  empty before the deduplication. The classifier is called once in the body of the
  candidate loop, for the detection that the body appends; an empty candidate list means
  that the body, and with it the classifier, never ran.
\<close>

theorem zero_buffer_no_detections:
  "to_db 0 = - 100 \<and>
   services_detect_rfi_patterns_fast (replicate n 0) sr = [] \<and>
   detect_rfi_patterns_fast (replicate n 0) sr = [] \<and>
   services_detect_rfi_patterns_complex (replicate n 0) sr = [] \<and>
   detect_rfi_patterns_complex (replicate n 0) sr = [] \<and>
   (scipy_spectrogram (replicate n 0) sr (min 2048 (n div 4)) (min 2048 (n div 4) div 4)
      = Inr (fr, tm, sx) \<longrightarrow>
    fast_candidates fr tm (map (map (\<lambda>p. clip (to_db p) (- 100) 50)) sx) sr
      (min 2048 (n div 4)) = []) \<and>
   (0 < sr \<and> 0 \<le> num_windows n \<longrightarrow>
    complex_candidates est cls cap (fftshift (fftfreq 4096 (1 / real sr)))
      (complex_times (nat (num_windows n)) sr)
      (map (map to_db) (complex_spectrogram (replicate n 0) (nat (num_windows n)))) = [])"
proof -
  have a: "services_detect_rfi_patterns_fast (replicate n 0) sr = []"
    unfolding services_detect_rfi_patterns_fast_def
    using detect_fast_zero [of services_filter_nearby_detections n sr] services_filter_Nil
    by blast
  have b: "detect_rfi_patterns_fast (replicate n 0) sr = []"
    unfolding detect_rfi_patterns_fast_def
    using detect_fast_zero [of filter_nearby_detections_default n sr] default_filter_Nil
    by blast
  have c: "services_detect_rfi_patterns_complex (replicate n 0) sr = []"
    unfolding services_detect_rfi_patterns_complex_def
    using detect_complex_zero [of services_estimate_bandwidth services_classify_interference
        "Some 200" services_filter_nearby_detections n sr] services_filter_Nil by auto
  have d: "detect_rfi_patterns_complex (replicate n 0) sr = []"
    unfolding detect_rfi_patterns_complex_def
    using detect_complex_zero [of estimate_bandwidth classify_interference
        None filter_nearby_detections_default n sr] default_filter_Nil by auto
  have e: "scipy_spectrogram (replicate n 0) sr (min 2048 (n div 4)) (min 2048 (n div 4) div 4)
      = Inr (fr, tm, sx) \<longrightarrow>
    fast_candidates fr tm (map (map (\<lambda>p. clip (to_db p) (- 100) 50)) sx) sr
      (min 2048 (n div 4)) = []"
    using fast_zero_no_peaks by blast
  have f: "0 < sr \<and> 0 \<le> num_windows n \<longrightarrow>
    complex_candidates est cls cap (fftshift (fftfreq 4096 (1 / real sr)))
      (complex_times (nat (num_windows n)) sr)
      (map (map to_db) (complex_spectrogram (replicate n 0) (nat (num_windows n)))) = []"
    using complex_zero_no_candidates by blast
  from to_db_zero a b c d e f show ?thesis by blast
qed

theorem zero_buffer_no_detections_witness:
  "(0::nat) < 2048000 \<and> 0 \<le> num_windows 5000 \<and>
   complex_candidates estimate_bandwidth classify_interference None
      (fftshift (fftfreq 4096 (1 / real 2048000)))
      (complex_times (nat (num_windows 5000)) 2048000)
      (map (map to_db) (complex_spectrogram (replicate 5000 0) (nat (num_windows 5000)))) = [] \<and>
   services_detect_rfi_patterns_fast (replicate 16 0) 8000 = [] \<and>
   map_sum id (\<lambda>r. fast_candidates (fst r) (fst (snd r))
       (map (map (\<lambda>p. clip (to_db p) (- 100) 50)) (snd (snd r))) 8000 4)
     (scipy_spectrogram (replicate 16 0) 8000 4 1) = Inr []"
proof -
  have h: "(0::nat) < 2048000 \<and> 0 \<le> num_windows 5000" by (simp add: num_windows_def)
  obtain fr sx where eq: "scipy_spectrogram (replicate 16 0) 8000 4 1 =
      Inr (fr, segment_times 16 8000 4 1, sx)"
    using scipy_spectrogram_ok [of 4 1 "replicate 16 0" 8000] by auto
  have w: "min 2048 ((16::nat) div 4) = 4" "(4::nat) div 4 = 1" by simp_all
  note i1 = zero_buffer_no_detections [of 5000 2048000 "[]" "[]" "[]"
      estimate_bandwidth classify_interference None]
  note i2 = zero_buffer_no_detections [of 16 8000 fr "segment_times 16 8000 4 1" sx
      estimate_bandwidth classify_interference None, unfolded w]
  from i1 h have c: "complex_candidates estimate_bandwidth classify_interference None
      (fftshift (fftfreq 4096 (1 / real 2048000)))
      (complex_times (nat (num_windows 5000)) 2048000)
      (map (map to_db) (complex_spectrogram (replicate 5000 0) (nat (num_windows 5000)))) = []"
    by blast
  from i2 eq have f: "fast_candidates fr (segment_times 16 8000 4 1)
      (map (map (\<lambda>p. clip (to_db p) (- 100) 50)) sx) 8000 4 = []" by blast
  from i2 have s: "services_detect_rfi_patterns_fast (replicate 16 0) 8000 = []" by blast
  have m: "map_sum id (\<lambda>r. fast_candidates (fst r) (fst (snd r))
       (map (map (\<lambda>p. clip (to_db p) (- 100) 50)) (snd (snd r))) 8000 4)
     (scipy_spectrogram (replicate 16 0) 8000 4 1) = Inr []"
    unfolding eq using f by simp
  from h c s m show ?thesis by blast
qed

lemma detect_fast_confidence:
  assumes "\<And>xs. set (filt xs) \<subseteq> set xs"
    and "d \<in> set (detect_rfi_patterns_fast_with filt audio sr)"
  shows "0 < confidence d \<and> confidence d \<le> 1"
proof (cases "scipy_spectrogram audio sr (min 2048 (length audio div 4))
    (min 2048 (length audio div 4) div 4)")
  case (Inl e)
  with assms(2) show ?thesis by (simp add: detect_rfi_patterns_fast_with_def Let_def)
next
  case (Inr res)
  obtain fr tm sx where res: "res = (fr, tm, sx)" by (cases res)
  let ?sg = "map (map (\<lambda>p. clip (to_db p) (- 100) 50)) sx"
  let ?c = "fast_candidates fr tm ?sg sr (min 2048 (length audio div 4))"
  from assms(2) Inr res have "d \<in> set (filt (limit_detections ?c))"
    by (simp add: detect_rfi_patterns_fast_with_def Let_def)
  then have "d \<in> set ?c" using assms(1) set_limit_detections by blast
  then show ?thesis using fast_candidates_confidence by blast
qed

lemma detect_complex_confidence:
  assumes "\<And>xs. set (filt xs) \<subseteq> set xs"
    and "d \<in> set (detect_rfi_patterns_complex_with est cls cap filt data sr)"
  shows "0 < confidence d \<and> confidence d \<le> 1"
proof (cases "sr = 0 \<or> num_windows (length data) < 0")
  case True
  with assms(2) show ?thesis
    by (auto simp: detect_rfi_patterns_complex_with_def split: if_splits)
next
  case False
  let ?nw = "nat (num_windows (length data))"
  let ?sg = "map (map to_db) (complex_spectrogram data ?nw)"
  let ?fr = "fftshift (fftfreq 4096 (1 / real sr))"
  let ?tm = "complex_times ?nw sr"
  have sh1: "length ?fr \<le> length ?sg"
    using complex_spectrogram_shape by (simp add: length_fftshift length_fftfreq)
  have sh2: "\<forall>row\<in>set ?sg. length ?tm \<le> length row"
    using complex_spectrogram_shape by (auto simp: length_complex_times)
  from assms(2) False have "d \<in> set (filt (complex_candidates est cls cap ?fr ?tm ?sg))"
    by (simp add: detect_rfi_patterns_complex_with_def Let_def)
  then have "d \<in> set (complex_candidates est cls cap ?fr ?tm ?sg)" using assms(1) by blast
  from complex_candidates_confidence [OF sh1 sh2 this] show ?thesis by blast
qed

text \<open>
  Claim C7. Every detection that either path emits has a confidence between 0 and 1:
  \<open>min((power - threshold) / std_power, 1)\<close> on the real-valued path and
  \<open>min(1, (power - threshold) / (max - threshold))\<close> on the complex-valued path, for a
  cell with \<open>power > threshold\<close>. Whenever a detection is emitted the divisor is positive
  (the deviation is positive, the maximum lies above the threshold), and a flat
  spectrogram gives no detection at all, so no confidence is ever computed with a zero
  divisor and none is NaN; the division by zero of HOL is not used.
\<close>

theorem confidence_in_unit_interval:
  "(\<forall>d\<in>set (fast_candidates fr tm sg sr w).
      0 < np_std (concat sg) \<and> 0 \<le> confidence d \<and> confidence d \<le> 1) \<and>
   ((\<forall>x\<in>set (concat sg). x = c) \<longrightarrow> fast_candidates fr tm sg sr w = []) \<and>
   (length fr \<le> length sg \<and> (\<forall>row\<in>set sg. length tm \<le> length row) \<longrightarrow>
      (\<forall>d\<in>set (complex_candidates est cls cap fr tm sg).
         np_mean (concat sg) + 3 * np_std (concat sg) < np_max (concat sg) \<and>
         0 \<le> confidence d \<and> confidence d \<le> 1) \<and>
      ((\<forall>x\<in>set (concat sg). x = c) \<longrightarrow> complex_candidates est cls cap fr tm sg = [])) \<and>
   (\<forall>d\<in>set (services_detect_rfi_patterns_fast audio sr). 0 \<le> confidence d \<and> confidence d \<le> 1) \<and>
   (\<forall>d\<in>set (detect_rfi_patterns_fast audio sr). 0 \<le> confidence d \<and> confidence d \<le> 1) \<and>
   (\<forall>d\<in>set (services_detect_rfi_patterns_complex data sr).
      0 \<le> confidence d \<and> confidence d \<le> 1) \<and>
   (\<forall>d\<in>set (detect_rfi_patterns_complex data sr). 0 \<le> confidence d \<and> confidence d \<le> 1)"
proof -
  have a: "\<forall>d\<in>set (fast_candidates fr tm sg sr w).
      0 < np_std (concat sg) \<and> 0 \<le> confidence d \<and> confidence d \<le> 1"
    using fast_candidates_confidence [of _ fr tm sg sr w] by (auto intro: less_imp_le)
  have b: "(\<forall>x\<in>set (concat sg). x = c) \<longrightarrow> fast_candidates fr tm sg sr w = []"
    using flat_no_peaks [of sg c] by (simp add: fast_candidates_def Let_def)
  have c1: "\<forall>d\<in>set (complex_candidates est cls cap fr tm sg).
         np_mean (concat sg) + 3 * np_std (concat sg) < np_max (concat sg) \<and>
         0 \<le> confidence d \<and> confidence d \<le> 1"
    if "length fr \<le> length sg" "\<forall>row\<in>set sg. length tm \<le> length row"
    using complex_candidates_confidence [OF that] by (auto intro: less_imp_le)
  have c2: "(\<forall>x\<in>set (concat sg). x = c) \<longrightarrow> complex_candidates est cls cap fr tm sg = []"
    if "length fr \<le> length sg" "\<forall>row\<in>set sg. length tm \<le> length row"
    using flat_no_complex_candidates [OF that] by blast
  have s1: "set (services_filter_nearby_detections xs) \<subseteq> set xs" for xs
    by (rule set_services_filter)
  have s2: "set (filter_nearby_detections_default xs) \<subseteq> set xs" for xs
    by (rule set_default_filter)
  have e: "\<forall>d\<in>set (services_detect_rfi_patterns_fast audio sr).
      0 \<le> confidence d \<and> confidence d \<le> 1"
    unfolding services_detect_rfi_patterns_fast_def
    using detect_fast_confidence [of services_filter_nearby_detections _ audio sr] s1
    by (auto intro: less_imp_le)
  have f: "\<forall>d\<in>set (detect_rfi_patterns_fast audio sr). 0 \<le> confidence d \<and> confidence d \<le> 1"
    unfolding detect_rfi_patterns_fast_def
    using detect_fast_confidence [of filter_nearby_detections_default _ audio sr] s2
    by (auto intro: less_imp_le)
  have g: "\<forall>d\<in>set (services_detect_rfi_patterns_complex data sr).
      0 \<le> confidence d \<and> confidence d \<le> 1"
    unfolding services_detect_rfi_patterns_complex_def
    using detect_complex_confidence [of services_filter_nearby_detections _
        services_estimate_bandwidth services_classify_interference "Some 200" data sr] s1
    by (auto intro: less_imp_le)
  have h: "\<forall>d\<in>set (detect_rfi_patterns_complex data sr).
      0 \<le> confidence d \<and> confidence d \<le> 1"
    unfolding detect_rfi_patterns_complex_def
    using detect_complex_confidence [of filter_nearby_detections_default _
        estimate_bandwidth classify_interference None data sr] s2
    by (auto intro: less_imp_le)
  from a b c1 c2 e f g h show ?thesis by blast
qed

lemma sqrt16: "sqrt 16 = 4"
proof -
  have "sqrt ((4::real)\<^sup>2) = \<bar>4\<bar>" by (rule real_sqrt_abs)
  then show ?thesis by simp
qed

lemma tone_stats: "np_median (concat tone_row) = 0" "np_std (concat tone_row) = 2"
  by (simp_all add: tone_row_def np_median_def np_std_def np_mean_def)

lemma spike_stats: "np_mean (concat spike_row) = 1" "np_std (concat spike_row) = 4"
  "np_max (concat spike_row) = 17"
  by (simp_all add: spike_row_def np_std_def np_mean_def np_max_def sqrt16)

lemma tone_conf:
  "map confidence (fast_candidates [1000] [0, 1, 2, 3, 4] tone_row 8000 4) = [1 / 2]"
  by (simp add: fast_candidates_def Let_def tone_stats)
     (simp add: tone_row_def peak_indices_def fast_detection_def)

lemma spike_conf:
  "map confidence (complex_candidates estimate_bandwidth classify_interference None [0]
      (complex_times 17 2048000) spike_row) = [1]"
  by (simp add: complex_candidates_def Let_def spike_stats complex_scan_uncapped
        length_complex_times)
     (simp add: spike_row_def complex_detection_def spike_stats [unfolded spike_row_def]
        upt_conv_Cons Let_def np_max_def)

theorem confidence_in_unit_interval_witness:
  "map confidence (fast_candidates [1000] [0, 1, 2, 3, 4] tone_row 8000 4) = [1 / 2] \<and>
   0 < np_std (concat tone_row) \<and>
   length [0::real] \<le> length spike_row \<and>
   map confidence (complex_candidates estimate_bandwidth classify_interference None [0]
      (complex_times 17 2048000) spike_row) = [1] \<and>
   fast_candidates [1000] [0, 1, 2] [[3, 3, 3]] 8000 4 = []"
proof -
  have flat: "\<forall>x\<in>set (concat [[3, 3, 3::real]]). x = 3" by simp
  from confidence_in_unit_interval [of "[1000]" "[0, 1, 2]" "[[3, 3, 3]]" 8000 4 3
      estimate_bandwidth classify_interference None "[]" "[]"] flat
  have "fast_candidates [1000] [0, 1, 2] [[3, 3, 3]] 8000 4 = []" by blast
  then show ?thesis using tone_conf spike_conf tone_stats by (simp add: spike_row_def)
qed

end
